theory Spec2Isabelle
  imports Complex_Main
begin

section \<open>Scalars, indices and failures\<close>

text \<open>
  The class \<^verbatim>\<open>CNewtonUpdateOnSubspace\<close> (file
  \<^verbatim>\<open>Common/include/toolboxes/CNewtonUpdateOnSubspace.hpp\<close>) keeps its solution
  buffers as flat arrays of scalars.  The class is a template over the type \<^verbatim>\<open>Scalar\<close> of
  these scalars, and the model of its buffers and of \<^verbatim>\<open>compute\<close> is polymorphic in it.  Two
  scalar types are used below: the reals, where the arithmetic is exact, for the statements
  that go through the factorization, the projection and the Newton step; and the doubles with
  their special values and the sign of zero (\<open>binary64\<close>), for the statement on what
  \<^verbatim>\<open>compute\<close> returns when the basis is empty.

  The diagonal of the QR factor, the Krylov quotients and the threshold are where the code
  tests for not-a-number, so they are modelled as doubles with the special values
  (\<open>su2double\<close>); rounding and overflow of finite values are abstracted, and so is the sign
  of zero, which the absolute value and the comparisons applied to these quantities do not
  see.
\<close>

datatype su2double = Finite real | PosInf | NegInf | NaN

fun dbl_abs :: "su2double \<Rightarrow> su2double" where
  "dbl_abs (Finite x) = Finite \<bar>x\<bar>"
| "dbl_abs PosInf = PosInf"
| "dbl_abs NegInf = PosInf"
| "dbl_abs NaN = NaN"

text \<open>\<open>a > b\<close>: false as soon as one side is not a number.\<close>

fun dbl_gt :: "su2double \<Rightarrow> su2double \<Rightarrow> bool" where
  "dbl_gt NaN b = False"
| "dbl_gt a NaN = False"
| "dbl_gt (Finite x) (Finite y) = (y < x)"
| "dbl_gt (Finite x) PosInf = False"
| "dbl_gt (Finite x) NegInf = True"
| "dbl_gt PosInf PosInf = False"
| "dbl_gt PosInf b = True"
| "dbl_gt NegInf b = False"

text \<open>\<open>a != b\<close>: true as soon as one side is not a number.\<close>

fun dbl_ne :: "su2double \<Rightarrow> su2double \<Rightarrow> bool" where
  "dbl_ne NaN b = True"
| "dbl_ne a NaN = True"
| "dbl_ne a b = (a \<noteq> b)"

fun dbl_div :: "su2double \<Rightarrow> su2double \<Rightarrow> su2double" where
  "dbl_div NaN b = NaN"
| "dbl_div a NaN = NaN"
| "dbl_div (Finite x) (Finite y) =
     (if y = 0 then (if x = 0 then NaN else if 0 < x then PosInf else NegInf)
      else Finite (x / y))"
| "dbl_div (Finite x) b = Finite 0"
| "dbl_div PosInf (Finite y) = (if 0 \<le> y then PosInf else NegInf)"
| "dbl_div NegInf (Finite y) = (if 0 \<le> y then NegInf else PosInf)"
| "dbl_div a b = NaN"

text \<open>
  The values of a double, for the solution buffers: a finite number (\<open>Number 0\<close> is the
  positive zero), the negative zero, the two infinities, and not-a-number (the payloads of
  the NaNs are not distinguished).  The arithmetic is that of IEEE 754 in the default
  rounding mode, with the rounding and the overflow of finite results abstracted: the sum of
  two zeros is negative only when both are, a sum of finite numbers that cancels is the
  positive zero, \<open>a - b\<close> is \<open>a + (- b)\<close>, and the sign of a product is the product of the
  signs.  Adding a zero to a number that is not a zero is exact in IEEE 754, so nothing is
  abstracted on that path.
\<close>

datatype binary64 = Number real | MinusZero | PlusInfinity | MinusInfinity | NotANumber

fun signbit :: "binary64 \<Rightarrow> bool" where
  "signbit (Number x) = (x < 0)"
| "signbit MinusZero = True"
| "signbit PlusInfinity = False"
| "signbit MinusInfinity = True"
| "signbit NotANumber = False"

fun is_infinite :: "binary64 \<Rightarrow> bool" where
  "is_infinite PlusInfinity = True"
| "is_infinite MinusInfinity = True"
| "is_infinite a = False"

fun magnitude :: "binary64 \<Rightarrow> real" where
  "magnitude (Number x) = \<bar>x\<bar>"
| "magnitude a = 0"

instantiation binary64 :: "{zero, plus, uminus, minus, times}"
begin

definition zero_binary64 :: binary64 where
  "zero_binary64 = Number 0"

fun uminus_binary64 :: "binary64 \<Rightarrow> binary64" where
  "uminus_binary64 (Number x) = (if x = 0 then MinusZero else Number (- x))"
| "uminus_binary64 MinusZero = Number 0"
| "uminus_binary64 PlusInfinity = MinusInfinity"
| "uminus_binary64 MinusInfinity = PlusInfinity"
| "uminus_binary64 NotANumber = NotANumber"

fun plus_binary64 :: "binary64 \<Rightarrow> binary64 \<Rightarrow> binary64" where
  "plus_binary64 NotANumber b = NotANumber"
| "plus_binary64 a NotANumber = NotANumber"
| "plus_binary64 PlusInfinity MinusInfinity = NotANumber"
| "plus_binary64 MinusInfinity PlusInfinity = NotANumber"
| "plus_binary64 PlusInfinity b = PlusInfinity"
| "plus_binary64 a PlusInfinity = PlusInfinity"
| "plus_binary64 MinusInfinity b = MinusInfinity"
| "plus_binary64 a MinusInfinity = MinusInfinity"
| "plus_binary64 MinusZero b = b"
| "plus_binary64 a MinusZero = a"
| "plus_binary64 (Number x) (Number y) = Number (x + y)"

definition minus_binary64 :: "binary64 \<Rightarrow> binary64 \<Rightarrow> binary64" where
  "minus_binary64 a b = a + (- b)"

definition times_binary64 :: "binary64 \<Rightarrow> binary64 \<Rightarrow> binary64" where
  "times_binary64 a b =
     (if a = NotANumber then NotANumber
      else if b = NotANumber then NotANumber
      else if is_infinite a then
        (if magnitude b = 0 then if is_infinite b
           then (if signbit a = signbit b then PlusInfinity else MinusInfinity)
           else NotANumber
         else if signbit a = signbit b then PlusInfinity else MinusInfinity)
      else if is_infinite b then
        (if magnitude a = 0 then NotANumber
         else if signbit a = signbit b then PlusInfinity else MinusInfinity)
      else if magnitude a * magnitude b = 0 then
        (if signbit a = signbit b then Number 0 else MinusZero)
      else if signbit a = signbit b then Number (magnitude a * magnitude b)
      else Number (- (magnitude a * magnitude b)))"

instance ..

end

text \<open>
  What can go wrong inside one call: the fatal \<^verbatim>\<open>SU2_MPI::Error\<close> of \<^verbatim>\<open>resize\<close>, an
  access past the end of a \<^verbatim>\<open>std::vector\<close> or of a raw buffer, an access past the end of
  the diagonal of the QR factor (with the index), operands whose dimensions do not fit in a
  dense linear-algebra operation, and a \<^verbatim>\<open>std::vector\<close> asked to grow past its maximal
  size.
\<close>

datatype error =
  InvalidParameters | OutOfRange | DiagonalOutOfRange nat | SizeMismatch | LengthError

definition and_then :: "error + 'a \<Rightarrow> ('a \<Rightarrow> error + 'b) \<Rightarrow> error + 'b" where
  "and_then m f = (case m of Inl e \<Rightarrow> Inl e | Inr x \<Rightarrow> f x)"

fun for_each :: "nat list \<Rightarrow> (nat \<Rightarrow> 's \<Rightarrow> error + 's) \<Rightarrow> 's \<Rightarrow> error + 's" where
  "for_each [] body s = Inr s"
| "for_each (i # js) body s = and_then (body i s) (for_each js body)"

text \<open>\<^verbatim>\<open>Index\<close> is an unsigned 64-bit integer: increments and decrements wrap.\<close>

definition Index_inc :: "nat \<Rightarrow> nat" where
  "Index_inc i = (i + 1) mod 2 ^ 64"

definition Index_dec :: "nat \<Rightarrow> nat" where
  "Index_dec i = (i + (2 ^ 64 - 1)) mod 2 ^ 64"

section \<open>Dense vectors and matrices\<close>

text \<open>
  The sums inside the products of the dense library: the terms are added one after the other,
  from zero.  Over the reals the order is immaterial; the statements on doubles below are on
  paths that do not go through these sums.
\<close>

definition dot :: "'a::{zero,plus,times} list \<Rightarrow> 'a list \<Rightarrow> 'a" where
  "dot u v = foldl (+) 0 (map2 (*) u v)"

definition zero_vector :: "nat \<Rightarrow> 'a::zero list" where
  "zero_vector n = replicate n 0"

definition unit_vector :: "nat \<Rightarrow> nat \<Rightarrow> real list" where
  "unit_vector n k = map (\<lambda>i. if i = k then 1 else 0) [0..<n]"

text \<open>A dense matrix of scalars: its number of rows and its columns, left to right.\<close>

record 'a MatrixXd =
  nrows :: nat
  colvec :: "'a list list"

definition ncols :: "'a MatrixXd \<Rightarrow> nat" where
  "ncols m = length (colvec m)"

definition set_col :: "'a MatrixXd \<Rightarrow> nat \<Rightarrow> 'a list \<Rightarrow> 'a MatrixXd" where
  "set_col m j v = m\<lparr>colvec := (colvec m)[j := v]\<rparr>"

definition coeff :: "'a MatrixXd \<Rightarrow> nat \<Rightarrow> nat \<Rightarrow> 'a" where
  "coeff m i j = colvec m ! j ! i"

text \<open>\<open>m.transpose() * v\<close>: one inner product per column.\<close>

definition transpose_times :: "'a::{zero,plus,times} MatrixXd \<Rightarrow> 'a list \<Rightarrow> 'a list" where
  "transpose_times m v = map (\<lambda>c. dot c v) (colvec m)"

text \<open>\<open>m * c\<close>: the combination of the columns with the coefficients \<open>c\<close>.\<close>

definition times :: "'a::{zero,plus,times} MatrixXd \<Rightarrow> 'a list \<Rightarrow> 'a list" where
  "times m c = map (\<lambda>i. foldl (+) 0 (map2 (\<lambda>column cj. column ! i * cj) (colvec m) c)) [0..<nrows m]"

definition mat_mul :: "real MatrixXd \<Rightarrow> real MatrixXd \<Rightarrow> real MatrixXd" where
  "mat_mul a b = \<lparr>nrows = nrows a, colvec = map (times a) (colvec b)\<rparr>"

definition identity :: "nat \<Rightarrow> real MatrixXd" where
  "identity n = \<lparr>nrows = n, colvec = map (unit_vector n) [0..<n]\<rparr>"

definition mat_sub :: "real MatrixXd \<Rightarrow> real MatrixXd \<Rightarrow> real MatrixXd" where
  "mat_sub a b = \<lparr>nrows = nrows a, colvec = map2 (map2 (-)) (colvec a) (colvec b)\<rparr>"

definition is_square :: "nat \<Rightarrow> 'a MatrixXd \<Rightarrow> bool" where
  "is_square n m = (nrows m = n \<and> ncols m = n \<and> list_all (\<lambda>c. length c = n) (colvec m))"

text \<open>
  The contents of storage that was allocated and not yet written are indeterminate: \<open>mem a i\<close>
  stands for what cell \<open>i\<close> of allocation \<open>a\<close> happens to hold, and every statement below
  is for all \<open>mem\<close>.
\<close>

definition fresh :: "(nat \<Rightarrow> nat \<Rightarrow> 'a) \<Rightarrow> nat \<Rightarrow> nat \<Rightarrow> 'a list" where
  "fresh mem a n = map (mem a) [0..<n]"

definition fresh_matrix :: "(nat \<Rightarrow> nat \<Rightarrow> 'a) \<Rightarrow> nat \<Rightarrow> nat \<Rightarrow> nat \<Rightarrow> 'a MatrixXd" where
  "fresh_matrix mem a r c =
     \<lparr>nrows = r, colvec = map (\<lambda>j. map (\<lambda>i. mem a (j * r + i)) [0..<r]) [0..<c]\<rparr>"

section \<open>The object\<close>

text \<open>
  The members of the class, those inherited from \<^verbatim>\<open>CQuasiNewtonInvLeastSquares\<close>
  (\<open>iSample\<close>, \<open>nPtDomain\<close>, \<open>work\<close>, \<open>X\<close>, \<open>R\<close>) first.

  Modelled from the spec: the container \<^verbatim>\<open>su2matrix\<close> of these buffers is declared in a
  header that is not among the sources.  The spec (section 3) has each solution quantity a
  flattened vector over the pairs of a grid point and a variable, so a container of \<open>npt\<close> by
  \<open>nvar\<close> scalars is its flat data array, of size \<open>npt * nvar\<close>; the code reads and writes it
  through \<^verbatim>\<open>data()\<close> and \<^verbatim>\<open>size()\<close> only.
\<close>

record 'a CNewtonUpdateOnSubspace =
  iSample :: nat
  nPtDomain :: nat
  work :: "'a list"
  X :: "'a list list"
  R :: "'a list list"
  work2 :: "'a list"
  p :: "'a list"
  p_R :: "'a list"
  pn_R :: "'a list"
  EigenX :: "'a MatrixXd"
  EigenR :: "'a MatrixXd"
  DR :: "'a MatrixXd"
  ProjectedJacobian :: "'a MatrixXd"
  NewtonInverseMatrix :: "'a MatrixXd"
  iBasis :: nat
  BasisSize_n :: nat

text \<open>The default construction, without allocation.\<close>

definition empty_matrix :: "'a MatrixXd" where
  "empty_matrix = \<lparr>nrows = 0, colvec = []\<rparr>"

definition default_object :: "'a CNewtonUpdateOnSubspace" where
  "default_object =
     \<lparr>iSample = 0, nPtDomain = 0, work = [], X = [], R = [], work2 = [], p = [],
      p_R = [], pn_R = [], EigenX = empty_matrix, EigenR = empty_matrix, DR = empty_matrix,
      ProjectedJacobian = empty_matrix, NewtonInverseMatrix = empty_matrix,
      iBasis = 0, BasisSize_n = 0\<rparr>"

text \<open>
  Modelled from the spec: \<^verbatim>\<open>FPresult\<close>, the accessor of the base accelerator
  \<^verbatim>\<open>CQuasiNewtonInvLeastSquares\<close> for its current result, is declared in a header that is
  not among the sources.  The spec (sections 3 and 6) has the accelerator expose the buffer
  \<open>work\<close>, which the caller fills with the new iterate and which holds the corrected iterate
  at the end of the call.
\<close>

definition FPresult :: "'a CNewtonUpdateOnSubspace \<Rightarrow> 'a list" where
  "FPresult s = work s"

subsection \<open>shiftHistoryLeft\<close>

text \<open>
  \<^verbatim>\<open>for (Index i = 1; i < history.size(); ++i) std::swap(history[i-1], history[i]);\<close>
\<close>

function shiftHistoryLeft_from :: "nat \<Rightarrow> 'a list \<Rightarrow> 'a list" where
  "shiftHistoryLeft_from i history =
     (if i < length history
      then shiftHistoryLeft_from (i + 1)
             (history[i - 1 := history ! i, i := history ! (i - 1)])
      else history)"
  by pat_completeness auto
termination
  by (relation "measure (\<lambda>(i, history). length history - i)") auto

definition shiftHistoryLeft :: "'a list \<Rightarrow> 'a list" where
  "shiftHistoryLeft history = shiftHistoryLeft_from 1 history"

subsection \<open>projectOntoSubspace and updateProjectedSolution\<close>

definition projectOntoSubspace ::
  "'a::{zero,plus,times} CNewtonUpdateOnSubspace \<Rightarrow> error + 'a CNewtonUpdateOnSubspace" where
  "projectOntoSubspace s =
     (let s1 = s\<lparr>pn_R := p_R s\<rparr> in
      if nrows (EigenR s1) = length (work s1)
      then (let s2 = s1\<lparr>p_R := transpose_times (EigenR s1) (work s1)\<rparr> in
            if nrows (EigenR s2) = length (p s2)
            then Inr (s2\<lparr>p := times (EigenR s2) (p_R s2)\<rparr>)
            else Inl SizeMismatch)
      else Inl SizeMismatch)"

definition updateProjectedSolution ::
  "'a::{zero,plus,minus,times} CNewtonUpdateOnSubspace \<Rightarrow> error + 'a CNewtonUpdateOnSubspace" where
  "updateProjectedSolution s =
     (let s1 = (if BasisSize_n s < ncols (EigenR s)
                then s\<lparr>pn_R := p_R s, BasisSize_n := ncols (EigenR s)\<rparr> else s) in
      if length (p_R s1) = length (pn_R s1)
      then if ncols (NewtonInverseMatrix s1) = length (p_R s1)
        then if nrows (NewtonInverseMatrix s1) = length (pn_R s1)
          then (let s2 = s1\<lparr>p_R := map2 (+) (pn_R s1)
                                 (times (NewtonInverseMatrix s1) (map2 (-) (p_R s1) (pn_R s1)))\<rparr> in
                if ncols (EigenR s2) = length (p_R s2)
                then if nrows (EigenR s2) = length (p s2)
                  then Inr (s2\<lparr>p := times (EigenR s2) (p_R s2)\<rparr>)
                  else Inl SizeMismatch
                else Inl SizeMismatch)
          else Inl SizeMismatch
        else Inl SizeMismatch
      else Inl SizeMismatch)"

subsection \<open>resize and reset\<close>

definition resize ::
  "(nat \<Rightarrow> nat \<Rightarrow> 'a::zero) \<Rightarrow> nat \<Rightarrow> nat \<Rightarrow> nat \<Rightarrow> nat \<Rightarrow> nat \<Rightarrow>
     'a CNewtonUpdateOnSubspace \<Rightarrow> error + 'a CNewtonUpdateOnSubspace" where
  "resize mem nsample nbasis npt nvar nptdomain s =
     (if npt < nptdomain then Inl InvalidParameters
      else if nsample < 2 then Inl InvalidParameters
      else
        (let s1 = s\<lparr>iSample := 0, iBasis := 0,
                    nPtDomain := (if nptdomain = 0 then npt else nptdomain),
                    work := fresh mem 0 (npt * nvar),
                    work2 := fresh mem 1 (npt * nvar),
                    p := fresh mem 2 (npt * nvar),
                    X := map (\<lambda>i. fresh mem (8 + i) (npt * nvar)) [0..<nsample],
                    R := map (\<lambda>i. fresh mem (8 + nsample + i) (npt * nvar)) [0..<nbasis]\<rparr> in
         if 0 < length (X s1)
         then (let s2 = s1\<lparr>X := (X s1)[0 := zero_vector (length (X s1 ! 0))]\<rparr> in
               if 0 < length (R s2)
               then (let s3 = s2\<lparr>R := (R s2)[0 := zero_vector (length (R s2 ! 0))]\<rparr> in
                     Inr (s3\<lparr>EigenX := fresh_matrix mem 3 (npt * nvar) nsample,
                             EigenR := fresh_matrix mem 4 (npt * nvar) 1,
                             DR := fresh_matrix mem 5 (npt * nvar) 1\<rparr>))
               else Inl OutOfRange)
         else Inl OutOfRange))"

text \<open>\<^verbatim>\<open>Index size() const { return R.size(); }\<close>\<close>

definition size_basis :: "'a CNewtonUpdateOnSubspace \<Rightarrow> nat" where
  "size_basis s = length (R s)"

text \<open>\<^verbatim>\<open>void reset() { std::swap(X[0], X[iSample]); iSample = 0; iBasis = 0; }\<close>\<close>

definition reset :: "'a CNewtonUpdateOnSubspace \<Rightarrow> error + 'a CNewtonUpdateOnSubspace" where
  "reset s =
     (if 0 < length (X s)
      then if iSample s < length (X s)
        then Inr (s\<lparr>X := (X s)[0 := X s ! iSample s, iSample s := X s ! 0],
                    iSample := 0, iBasis := 0\<rparr>)
        else Inl OutOfRange
      else Inl OutOfRange)"

subsection \<open>compute\<close>

text \<open>The first block of \<^verbatim>\<open>compute\<close>: take the subspace part out of the iterate, or clear \<open>p\<close>.\<close>

definition remove_projection ::
  "'a::{zero,plus,minus,times} CNewtonUpdateOnSubspace \<Rightarrow> error + 'a CNewtonUpdateOnSubspace" where
  "remove_projection s =
     (if 0 < iBasis s
      then and_then (projectOntoSubspace s) (\<lambda>s1.
             if length (work s1) \<le> length (p s1)
             then Inr (s1\<lparr>work := map (\<lambda>i. work s1 ! i - p s1 ! i) [0..<length (work s1)]\<rparr>)
             else Inl OutOfRange)
      else Inr (s\<lparr>p := map (\<lambda>i. 0) [0..<length (p s)]\<rparr>))"

text \<open>The second block: make room in the window, then store the new delta in it.\<close>

definition store_delta ::
  "'a::{zero,plus,minus,times} CNewtonUpdateOnSubspace \<Rightarrow> error + 'a CNewtonUpdateOnSubspace" where
  "store_delta s =
     (let s1 = (if Index_inc (iSample s) = length (X s)
                then s\<lparr>X := shiftHistoryLeft (X s), iSample := Index_dec (iSample s)\<rparr>
                else s) in
      if length (work s1) \<le> length (work2 s1)
      then (let s2 = s1\<lparr>work2 := map (\<lambda>i. work s1 ! i - work2 s1 ! i) [0..<length (work s1)]
                                  @ drop (length (work s1)) (work2 s1)\<rparr>;
                k = Index_inc (iSample s2) in
            if k < length (X s2)
            then (let s3 = s2\<lparr>iSample := k, X := (X s2)[k := work2 s2], work2 := X s2 ! k\<rparr> in
                  Inr (s3\<lparr>work2 := work s3, work := work2 s3\<rparr>))
            else Inl OutOfRange)
      else Inl OutOfRange)"

text \<open>The last block: the Newton correction of the subspace part, and the recombination.\<close>

definition recombine ::
  "'a::{zero,plus,minus,times} CNewtonUpdateOnSubspace \<Rightarrow> error + 'a CNewtonUpdateOnSubspace" where
  "recombine s =
     and_then (if 0 < iBasis s then updateProjectedSolution s else Inr s) (\<lambda>s1.
       if length (work s1) \<le> length (work2 s1)
       then if length (work s1) \<le> length (p s1)
         then Inr (s1\<lparr>work := map (\<lambda>i. work2 s1 ! i + p s1 ! i) [0..<length (work s1)]\<rparr>)
         else Inl OutOfRange
       else Inl OutOfRange)"

definition compute ::
  "'a::{zero,plus,minus,times} CNewtonUpdateOnSubspace \<Rightarrow>
     error + ('a list \<times> 'a CNewtonUpdateOnSubspace)" where
  "compute s =
     and_then (remove_projection s) (\<lambda>s1.
     and_then (store_delta s1) (\<lambda>s2.
     and_then (recombine s2) (\<lambda>s3. Inr (FPresult s3, s3))))"


section \<open>The dense linear-algebra library and the differentiation tape\<close>

text \<open>
  Modelled from the spec: the factorization, the normalization and the inversion are done by
  the dense linear-algebra library (section 6 of the spec), which is not among the sources.
  The model takes them as a parameter: the
  diagonal of the matrix the Householder QR factorization leaves (entry \<open>i\<close>), the product of
  its orthogonal factor with a vector (entry \<open>i\<close>), a vector normalized (entry \<open>i\<close>), and the
  inverse of a square matrix (entry \<open>i\<close>, \<open>j\<close>).  The dimensions of the results are those of
  the operands, as the library's types have it.
\<close>

record linalg =
  householderQR_diagonal :: "real MatrixXd \<Rightarrow> nat \<Rightarrow> su2double"
  householderQ_times :: "real MatrixXd \<Rightarrow> real list \<Rightarrow> nat \<Rightarrow> real"
  normalized :: "real list \<Rightarrow> nat \<Rightarrow> real"
  matrix_inverse :: "real MatrixXd \<Rightarrow> nat \<Rightarrow> nat \<Rightarrow> real"

text \<open>\<open>QR.matrixQR().diagonal()(i)\<close>: the diagonal has \<open>min rows cols\<close> entries.\<close>

definition Rdiag :: "linalg \<Rightarrow> real MatrixXd \<Rightarrow> nat \<Rightarrow> error + su2double" where
  "Rdiag lib m i =
     (if i < min (nrows m) (ncols m) then Inr (householderQR_diagonal lib m i)
      else Inl (DiagonalOutOfRange i))"

definition apply_inverse :: "linalg \<Rightarrow> real MatrixXd \<Rightarrow> real MatrixXd" where
  "apply_inverse lib m =
     \<lparr>nrows = nrows m,
      colvec = map (\<lambda>j. map (\<lambda>i. matrix_inverse lib m i j) [0..<nrows m]) [0..<ncols m]\<rparr>"

text \<open>
  \<open>m.resize(r, c)\<close> of the library: nothing happens when the dimensions are already these,
  otherwise the coefficients are indeterminate.
\<close>

definition Eigen_resize ::
  "(nat \<Rightarrow> nat \<Rightarrow> real) \<Rightarrow> nat \<Rightarrow> real MatrixXd \<Rightarrow> nat \<Rightarrow> nat \<Rightarrow> real MatrixXd" where
  "Eigen_resize mem a m r c =
     (if nrows m = r then if ncols m = c then m else fresh_matrix mem a r c
      else fresh_matrix mem a r c)"

definition set_coeff :: "real MatrixXd \<Rightarrow> nat \<Rightarrow> nat \<Rightarrow> real \<Rightarrow> real MatrixXd" where
  "set_coeff m i j v = m\<lparr>colvec := (colvec m)[j := (colvec m ! j)[i := v]]\<rparr>"

subsection \<open>checkBasis\<close>

text \<open>\<^verbatim>\<open>EigenX.col(i) = Eigen::VectorXd::Map(X[i].data(), X[0].size());\<close>\<close>

definition copy_window_column ::
  "nat \<Rightarrow> real CNewtonUpdateOnSubspace \<Rightarrow> error + real CNewtonUpdateOnSubspace" where
  "copy_window_column i s =
     (if i < ncols (EigenX s)
      then if nrows (EigenX s) = length (X s ! 0)
        then if length (X s ! 0) \<le> length (X s ! i)
          then Inr (s\<lparr>EigenX := set_col (EigenX s) i (take (length (X s ! 0)) (X s ! i))\<rparr>)
          else Inl OutOfRange
        else Inl SizeMismatch
      else Inl OutOfRange)"

definition copy_window :: "real CNewtonUpdateOnSubspace \<Rightarrow> error + real CNewtonUpdateOnSubspace" where
  "copy_window s = for_each [0..<length (X s)] copy_window_column s"

text \<open>
  \<^verbatim>\<open>for (Index i = 0; i < X.size()-1; i++)
    if (Rdiag(i+1) != 0.0) Krylov_Criterion_Quotients[i] = Rdiag(i)/Rdiag(i+1);\<close>
  on a vector that \<^verbatim>\<open>resize\<close> filled with zeros.
\<close>

fun quotient_loop ::
  "linalg \<Rightarrow> real MatrixXd \<Rightarrow> nat list \<Rightarrow> su2double list \<Rightarrow> error + su2double list" where
  "quotient_loop lib m [] q = Inr q"
| "quotient_loop lib m (i # js) q =
     and_then (Rdiag lib m (i + 1)) (\<lambda>d1.
       if dbl_ne d1 (Finite 0)
       then and_then (Rdiag lib m i) (\<lambda>d0. quotient_loop lib m js (q[i := dbl_div d0 d1]))
       else quotient_loop lib m js q)"

definition Krylov_Criterion_Quotients ::
  "linalg \<Rightarrow> real MatrixXd \<Rightarrow> nat \<Rightarrow> error + su2double list" where
  "Krylov_Criterion_Quotients lib m n =
     quotient_loop lib m [0..<n - 1] (replicate (n - 1) (Finite 0))"

text \<open>
  \<^verbatim>\<open>(abs(Q[0]) > KrylovCriterionValue) && !(abs(Q[0]) != abs(Q[0]))\<close>
\<close>

definition Krylov_criterion_fulfilled :: "su2double \<Rightarrow> su2double \<Rightarrow> bool" where
  "Krylov_criterion_fulfilled q KrylovCriterionValue =
     (dbl_gt (dbl_abs q) KrylovCriterionValue \<and> \<not> dbl_ne (dbl_abs q) (dbl_abs q))"

text \<open>
  \<^verbatim>\<open>Eigen_NewR = Eigen_NewR - Eigen_NewR.dot(PrecedingR)*PrecedingR;\<close> for one preceding
  basis vector, seen through a map of \<open>R[0].size()\<close> entries.
\<close>

definition subtract_projection ::
  "real list list \<Rightarrow> nat \<Rightarrow> nat \<Rightarrow> real list \<Rightarrow> error + real list" where
  "subtract_projection basis n i v =
     (if n \<le> length (basis ! i)
      then (let PrecedingR = take n (basis ! i) in
            Inr (map2 (-) v (map (\<lambda>x. dot v PrecedingR * x) PrecedingR)))
      else Inl OutOfRange)"

text \<open>
  \<^verbatim>\<open>EigenR.resize(EigenR.rows(),iBasis);
  for (Index i = 0; i < iBasis; ++i) EigenR.col(i) = Eigen::VectorXd::Map(R[i].data(),R[0].size());\<close>
\<close>

definition copy_basis_column ::
  "nat \<Rightarrow> real CNewtonUpdateOnSubspace \<Rightarrow> error + real CNewtonUpdateOnSubspace" where
  "copy_basis_column i s =
     (if i < length (R s)
      then if nrows (EigenR s) = length (R s ! 0)
        then if length (R s ! 0) \<le> length (R s ! i)
          then Inr (s\<lparr>EigenR := set_col (EigenR s) i (take (length (R s ! 0)) (R s ! i))\<rparr>)
          else Inl OutOfRange
        else Inl SizeMismatch
      else Inl OutOfRange)"

text \<open>The accepting branch of \<^verbatim>\<open>checkBasis\<close>, from \<^verbatim>\<open>iBasis++\<close> on.\<close>

definition appendBasisVector ::
  "linalg \<Rightarrow> (nat \<Rightarrow> nat \<Rightarrow> real) \<Rightarrow> real CNewtonUpdateOnSubspace \<Rightarrow>
     error + real CNewtonUpdateOnSubspace" where
  "appendBasisVector lib mem s =
     (let s1 = s\<lparr>iBasis := Index_inc (iBasis s)\<rparr>; k = Index_dec (iBasis s1) in
      if k < length (R s1)
      then (let n = length (R s1 ! 0) in
        if n \<le> length (R s1 ! k)
        then if nrows (EigenX s1) = n
          then (let Q_e0 = map (householderQ_times lib (EigenX s1) (unit_vector n 0)) [0..<n] in
            and_then (for_each [0..<k] (subtract_projection (R s1) n) Q_e0) (\<lambda>NewR.
              (let unit = map (normalized lib NewR) [0..<n];
                   s2 = s1\<lparr>R := (R s1)[k := unit @ drop n (R s1 ! k)]\<rparr>;
                   s3 = s2\<lparr>EigenR := Eigen_resize mem 4 (EigenR s2) (nrows (EigenR s2)) (iBasis s2)\<rparr>
               in for_each [0..<iBasis s3] copy_basis_column s3)))
          else Inl SizeMismatch
        else Inl OutOfRange)
      else Inl OutOfRange)"

definition checkBasis ::
  "linalg \<Rightarrow> (nat \<Rightarrow> nat \<Rightarrow> real) \<Rightarrow> su2double \<Rightarrow> real CNewtonUpdateOnSubspace \<Rightarrow>
     error + (bool \<times> real CNewtonUpdateOnSubspace)" where
  "checkBasis lib mem KrylovCriterionValue s =
     (if Index_inc (iSample s) < length (X s) then Inr (False, s)
      else if iBasis s < length (R s)
      then and_then (copy_window s) (\<lambda>s1.
        if 0 < length (X s1)
        then and_then (Krylov_Criterion_Quotients lib (EigenX s1) (length (X s1))) (\<lambda>q.
          if 0 < length q
          then if Krylov_criterion_fulfilled (q ! 0) KrylovCriterionValue
            then and_then (appendBasisVector lib mem s1) (\<lambda>s2. Inr (True, s2))
            else Inr (False, s1)
          else Inl OutOfRange)
        else Inl LengthError)
      else Inr (False, s))"

subsection \<open>computeProjectedJacobian\<close>

text \<open>
  Modelled from the spec: the differentiation tool (the namespace \<^verbatim>\<open>AD\<close>) is declared in
  headers that are not among the sources.  After the spec (section 6, the differentiation
  oracle), it keeps a vector of adjoints, indexed by the integers the recording gave to the
  variables.  \<^verbatim>\<open>AD::ClearAdjoints\<close> zeroes it, \<^verbatim>\<open>AD::SetDerivative\<close> writes one entry,
  \<^verbatim>\<open>AD::ComputeAdjoint\<close> evaluates the recorded tape on it (the parameter \<open>tape\<close>, a
  function on adjoint vectors), \<^verbatim>\<open>AD::GetDerivative\<close> reads one entry.
\<close>

definition seed_adjoints :: "int list \<Rightarrow> real list \<Rightarrow> int \<Rightarrow> real" where
  "seed_adjoints OutputIndices r =
     fold (\<lambda>it adj. adj(OutputIndices ! it := r ! it)) [0..<length r] (\<lambda>k. 0)"

definition projected_entry ::
  "nat \<Rightarrow> nat \<Rightarrow> real CNewtonUpdateOnSubspace \<Rightarrow> error + real CNewtonUpdateOnSubspace" where
  "projected_entry j i s =
     (if i < ncols (EigenR s)
      then if nrows (EigenR s) = nrows (DR s)
        then if i < nrows (ProjectedJacobian s)
          then if j < ncols (ProjectedJacobian s)
            then Inr (s\<lparr>ProjectedJacobian := set_coeff (ProjectedJacobian s) i j
                         (dot (colvec (EigenR s) ! i) (colvec (DR s) ! j))\<rparr>)
            else Inl OutOfRange
          else Inl OutOfRange
        else Inl SizeMismatch
      else Inl OutOfRange)"

text \<open>One turn of the loop over \<open>j\<close>.\<close>

definition jacobian_column ::
  "((int \<Rightarrow> real) \<Rightarrow> int \<Rightarrow> real) \<Rightarrow> int list \<Rightarrow> int list \<Rightarrow> nat \<Rightarrow>
     real CNewtonUpdateOnSubspace \<Rightarrow> error + real CNewtonUpdateOnSubspace" where
  "jacobian_column tape InputIndices OutputIndices j s =
     (if j < length (R s)
      then if length (R s ! j) \<le> length OutputIndices
        then (let adj = tape (seed_adjoints OutputIndices (R s ! j)) in
          if j < ncols (DR s)
          then if length (R s ! j) \<le> nrows (DR s)
            then if length (R s ! j) \<le> length InputIndices
              then (let column = map (\<lambda>it. adj (InputIndices ! it)) [0..<length (R s ! j)]
                                   @ drop (length (R s ! j)) (colvec (DR s) ! j);
                        s1 = s\<lparr>DR := set_col (DR s) j column\<rparr>
                    in for_each [0..<iBasis s1] (projected_entry j) s1)
              else Inl OutOfRange
            else Inl OutOfRange
          else Inl OutOfRange)
        else Inl OutOfRange
      else Inl OutOfRange)"

definition computeProjectedJacobian ::
  "linalg \<Rightarrow> ((int \<Rightarrow> real) \<Rightarrow> int \<Rightarrow> real) \<Rightarrow> (nat \<Rightarrow> nat \<Rightarrow> real) \<Rightarrow>
     nat \<Rightarrow> int list \<Rightarrow> int list \<Rightarrow> real CNewtonUpdateOnSubspace \<Rightarrow>
     error + real CNewtonUpdateOnSubspace" where
  "computeProjectedJacobian lib tape mem iZone InputIndices OutputIndices s =
     (let s1 = s\<lparr>ProjectedJacobian :=
                   Eigen_resize mem 6 (ProjectedJacobian s) (iBasis s) (iBasis s),
                 NewtonInverseMatrix :=
                   Eigen_resize mem 7 (NewtonInverseMatrix s) (iBasis s) (iBasis s),
                 DR := Eigen_resize mem 5 (DR s) (nrows (DR s)) (iBasis s)\<rparr> in
      and_then (for_each [0..<iBasis s1] (jacobian_column tape InputIndices OutputIndices) s1)
        (\<lambda>s2.
          (let s3 = s2\<lparr>NewtonInverseMatrix := identity (nrows (NewtonInverseMatrix s2))\<rparr>;
               s4 = s3\<lparr>ProjectedJacobian :=
                          mat_sub (NewtonInverseMatrix s3) (ProjectedJacobian s3)\<rparr>
           in Inr (s4\<lparr>NewtonInverseMatrix := apply_inverse lib (ProjectedJacobian s4)\<rparr>))))"


section \<open>An instance of the library, in exact arithmetic\<close>

text \<open>
  For the statements at concrete inputs the library is instantiated with what it computes
  when no rounding occurs: the Householder reflections of the QR factorization, column by
  column, with the reflection skipped when the part of the column below the diagonal vanishes
  (its squared norm is at most \<open>tol\<close>, the smallest positive normal double); the orthogonal
  factor as the product of these reflections; the normalization by the Euclidean norm, skipped
  for the zero vector; and the inverse by elimination with partial pivoting.
\<close>

definition tol :: real where
  "tol = 1 / 2 ^ 1022"

definition makeHouseholder :: "real list \<Rightarrow> real \<times> real \<times> real list" where
  "makeHouseholder x =
     (let c0 = hd x; tail = tl x; tailSqNorm = dot tail tail in
      if tailSqNorm \<le> tol then (0, c0, map (\<lambda>t. 0) tail)
      else (let beta = (if 0 \<le> c0 then - sqrt (c0 * c0 + tailSqNorm)
                        else sqrt (c0 * c0 + tailSqNorm))
            in ((beta - c0) / beta, beta, map (\<lambda>t. t / (c0 - beta)) tail)))"

definition applyHouseholderOnTheLeft :: "real list \<Rightarrow> real \<Rightarrow> real list \<Rightarrow> real list" where
  "applyHouseholderOnTheLeft essential tau y =
     (if length y = 1 then map (\<lambda>v. v * (1 - tau)) y
      else if tau = 0 then y
      else (case y of
              [] \<Rightarrow> []
            | y0 # bottom \<Rightarrow>
                (let tmp = dot essential bottom + y0 in
                 (y0 - tau * tmp) # map2 (\<lambda>b e. b - tau * tmp * e) bottom essential)))"

function householder_steps :: "real list list \<Rightarrow> (real \<times> real \<times> real list) list" where
  "householder_steps [] = []"
| "householder_steps (c # cs) =
     (if c = [] then []
      else (let h = makeHouseholder c in
            h # householder_steps
                  (map (\<lambda>y. tl (applyHouseholderOnTheLeft (snd (snd h)) (fst h) y)) cs)))"
  by pat_completeness auto
termination
  by (relation "measure length") auto

fun applyQ :: "(real \<times> real \<times> real list) list \<Rightarrow> real list \<Rightarrow> real list" where
  "applyQ [] v = v"
| "applyQ (h # hs) v =
     (case v of
        [] \<Rightarrow> []
      | v0 # vt \<Rightarrow> applyHouseholderOnTheLeft (snd (snd h)) (fst h) (v0 # applyQ hs vt))"

definition normalize :: "real list \<Rightarrow> real list" where
  "normalize v = (let z = dot v v in if 0 < z then map (\<lambda>x. x / sqrt z) v else v)"

definition rows_of :: "real MatrixXd \<Rightarrow> real list list" where
  "rows_of m = map (\<lambda>i. map (\<lambda>c. c ! i) (colvec m)) [0..<nrows m]"

definition pivot_row :: "nat \<Rightarrow> real list list \<Rightarrow> nat" where
  "pivot_row k a =
     fold (\<lambda>i best. if \<bar>a ! best ! k\<bar> < \<bar>a ! i ! k\<bar> then i else best) [Suc k..<length a] k"

definition eliminate :: "nat \<Rightarrow> real list list \<Rightarrow> real list list" where
  "eliminate k a =
     (let r = pivot_row k a;
          a1 = a[k := a ! r, r := a ! k];
          pivot = a1 ! k ! k;
          rowk = map (\<lambda>x. x / pivot) (a1 ! k)
      in map (\<lambda>i. if i = k then rowk
                   else map2 (\<lambda>x y. x - a1 ! i ! k * y) (a1 ! i) rowk) [0..<length a1])"

definition partialPiv_inverse :: "real MatrixXd \<Rightarrow> nat \<Rightarrow> nat \<Rightarrow> real" where
  "partialPiv_inverse m i j =
     (let n = nrows m;
          a = map (\<lambda>k. rows_of m ! k @ unit_vector n k) [0..<n]
      in fold eliminate [0..<n] a ! i ! (n + j))"

definition Eigen_exact :: linalg where
  "Eigen_exact =
     \<lparr>householderQR_diagonal = (\<lambda>m i. Finite (fst (snd (householder_steps (colvec m) ! i)))),
      householderQ_times = (\<lambda>m v i. applyQ (householder_steps (colvec m)) v ! i),
      normalized = (\<lambda>v i. normalize v ! i),
      matrix_inverse = partialPiv_inverse\<rparr>"

section \<open>Calls in sequence\<close>

text \<open>
  The outer solver stores each new iterate in the buffer \<open>work\<close>, entry by entry, through the
  accessor of the base accelerator, and then calls the object.
\<close>

definition store_FPresult ::
  "'a list \<Rightarrow> 'a CNewtonUpdateOnSubspace \<Rightarrow> error + 'a CNewtonUpdateOnSubspace" where
  "store_FPresult w s =
     (if length w = length (work s) then Inr (s\<lparr>work := w\<rparr>) else Inl OutOfRange)"

datatype call =
  Store "real list"
| Compute
| CheckBasis su2double
| ComputeProjectedJacobian "int list" "int list"

fun is_CheckBasis :: "call \<Rightarrow> bool" where
  "is_CheckBasis (CheckBasis t) = True"
| "is_CheckBasis c = False"

definition perform ::
  "linalg \<Rightarrow> ((int \<Rightarrow> real) \<Rightarrow> int \<Rightarrow> real) \<Rightarrow> (nat \<Rightarrow> nat \<Rightarrow> real) \<Rightarrow> call \<Rightarrow>
     real CNewtonUpdateOnSubspace \<Rightarrow> error + real CNewtonUpdateOnSubspace" where
  "perform lib tape mem c s =
     (case c of
        Store w \<Rightarrow> store_FPresult w s
      | Compute \<Rightarrow> and_then (compute s) (\<lambda>r. Inr (snd r))
      | CheckBasis t \<Rightarrow> and_then (checkBasis lib mem t s) (\<lambda>r. Inr (snd r))
      | ComputeProjectedJacobian InputIndices OutputIndices \<Rightarrow>
          computeProjectedJacobian lib tape mem 0 InputIndices OutputIndices s)"

fun run ::
  "linalg \<Rightarrow> ((int \<Rightarrow> real) \<Rightarrow> int \<Rightarrow> real) \<Rightarrow> (nat \<Rightarrow> nat \<Rightarrow> real) \<Rightarrow> call list \<Rightarrow>
     real CNewtonUpdateOnSubspace \<Rightarrow> error + real CNewtonUpdateOnSubspace" where
  "run lib tape mem [] s = Inr s"
| "run lib tape mem (c # cs) s = and_then (perform lib tape mem c s) (run lib tape mem cs)"

text \<open>Storing the iterates \<open>ws\<close> one after the other, with one \<^verbatim>\<open>compute\<close> after each.\<close>

fun feed :: "real list list \<Rightarrow> real CNewtonUpdateOnSubspace \<Rightarrow> error + real CNewtonUpdateOnSubspace" where
  "feed [] s = Inr s"
| "feed (w # ws) s =
     and_then (store_FPresult w s) (\<lambda>s1. and_then (compute s1) (\<lambda>r. feed ws (snd r)))"

section \<open>Configured objects\<close>

text \<open>
  What \<^verbatim>\<open>resize\<close> establishes and every operation keeps, for solution buffers of \<open>n\<close>
  scalars: the window has at least two slots, every buffer has \<open>n\<close> entries, the counters are
  within their containers, and the containers fit in the address space.
\<close>

definition well_formed :: "'a MatrixXd \<Rightarrow> bool" where
  "well_formed m = list_all (\<lambda>c. length c = nrows m) (colvec m)"

definition configured :: "nat \<Rightarrow> 'a CNewtonUpdateOnSubspace \<Rightarrow> bool" where
  "configured n s =
     (2 \<le> length (X s) \<and> length (X s) < 2 ^ 64 \<and> iSample s < length (X s) \<and>
      list_all (\<lambda>x. length x = n) (X s) \<and>
      1 \<le> length (R s) \<and> length (R s) < 2 ^ 64 \<and> iBasis s \<le> length (R s) \<and>
      list_all (\<lambda>r. length r = n) (R s) \<and>
      length (work s) = n \<and> length (work2 s) = n \<and> length (p s) = n \<and>
      nrows (EigenX s) = n \<and> ncols (EigenX s) = length (X s) \<and>
      nrows (EigenR s) = n \<and> well_formed (EigenR s) \<and>
      nrows (DR s) = n \<and> well_formed (DR s))"

text \<open>The live part of the window: the slots \<open>0\<close> to \<open>iSample\<close>.\<close>

definition window :: "real CNewtonUpdateOnSubspace \<Rightarrow> real list list" where
  "window s = take (iSample s + 1) (X s)"

text \<open>The last \<open>k\<close> entries of a sequence.\<close>

definition most_recent :: "nat \<Rightarrow> 'a list \<Rightarrow> 'a list" where
  "most_recent k xs = drop (length xs - k) xs"

text \<open>The deltas of a sequence of iterates, the first one against \<open>previous\<close>.\<close>

fun deltas :: "real list \<Rightarrow> real list list \<Rightarrow> real list list" where
  "deltas previous [] = []"
| "deltas previous (w # ws) = map2 (-) w previous # deltas w ws"

section \<open>The quantities the claims speak of\<close>

text \<open>The matrix \<open>EigenX\<close> once \<^verbatim>\<open>checkBasis\<close> has copied the window into its columns.\<close>

definition window_matrix :: "real CNewtonUpdateOnSubspace \<Rightarrow> real MatrixXd" where
  "window_matrix s = (EigenX s)\<lparr>colvec := map (take (length (X s ! 0))) (X s)\<rparr>"

text \<open>
  The Krylov quotient of slot \<open>i\<close>, in the words of the specification: the ratio of the
  diagonal entries \<open>i\<close> and \<open>i + 1\<close> of the triangular factor of the window, left at zero when
  the second one is zero.
\<close>

definition Krylov_quotient :: "linalg \<Rightarrow> real CNewtonUpdateOnSubspace \<Rightarrow> nat \<Rightarrow> su2double" where
  "Krylov_quotient lib s i =
     (if dbl_ne (householderQR_diagonal lib (window_matrix s) (i + 1)) (Finite 0)
      then dbl_div (householderQR_diagonal lib (window_matrix s) i)
             (householderQR_diagonal lib (window_matrix s) (i + 1))
      else Finite 0)"

text \<open>
  The first \<open>iBasis\<close> columns of the basis copy \<open>EigenR\<close> are the active basis vectors: so it
  is after \<^verbatim>\<open>resize\<close> and after \<^verbatim>\<open>reset\<close>, where no vector is active, and after each
  growth, where \<^verbatim>\<open>checkBasis\<close> copies them.
\<close>

definition basis_synced :: "real CNewtonUpdateOnSubspace \<Rightarrow> bool" where
  "basis_synced s =
     (iBasis s \<le> ncols (EigenR s) \<and>
      take (iBasis s) (colvec (EigenR s)) = take (iBasis s) (R s))"

text \<open>
  The projected Jacobian, in the words of the specification: \<open>DR[:,j]\<close> is what the
  differentiation tool returns at the input indices for the seed \<open>R[j]\<close> at the output
  indices, and \<open>J[i,j] = R[i]\<^sup>T \<cdot> DR[:,j]\<close> for the active basis vectors.
\<close>

definition adjoint_derivatives ::
  "((int \<Rightarrow> real) \<Rightarrow> int \<Rightarrow> real) \<Rightarrow> int list \<Rightarrow> int list \<Rightarrow> real list \<Rightarrow> real list" where
  "adjoint_derivatives tape InputIndices OutputIndices r =
     map (\<lambda>it. tape (seed_adjoints OutputIndices r) (InputIndices ! it)) [0..<length r]"

definition projected_Jacobian ::
  "((int \<Rightarrow> real) \<Rightarrow> int \<Rightarrow> real) \<Rightarrow> int list \<Rightarrow> int list \<Rightarrow>
     real CNewtonUpdateOnSubspace \<Rightarrow> real MatrixXd" where
  "projected_Jacobian tape InputIndices OutputIndices s =
     \<lparr>nrows = iBasis s,
      colvec = map (\<lambda>j. map (\<lambda>i. dot (R s ! i)
                                   (adjoint_derivatives tape InputIndices OutputIndices (R s ! j)))
                            [0..<iBasis s])
                   [0..<iBasis s]\<rparr>"

text \<open>
  What the library's inversion promises for matrices of \<open>n\<close> rows and columns: on a matrix
  that has a left inverse it returns one.
\<close>

definition inverse_contract :: "linalg \<Rightarrow> nat \<Rightarrow> bool" where
  "inverse_contract lib n =
     (\<forall>a. is_square n a \<and> (\<exists>b. is_square n b \<and> mat_mul b a = identity n)
          \<longrightarrow> mat_mul (apply_inverse lib a) a = identity n)"

section \<open>A sample run\<close>

text \<open>
  The statements at concrete inputs follow one run: \<^verbatim>\<open>resize(2, 1, 2, 1, 1)\<close> on zeroed
  storage (two samples, one basis slot, two points of which the first is owned by the process
  and the second is a halo point, one variable), the iterates (0, 1) and (0.01, 1) with
  \<^verbatim>\<open>compute\<close> after each, \<^verbatim>\<open>checkBasis\<close> with threshold 50, \<^verbatim>\<open>computeProjectedJacobian\<close>
  for a recorded map whose adjoint pass divides every adjoint by three, and the iterate
  (0.01, 5) with \<^verbatim>\<open>compute\<close>.  The states it goes through:
\<close>

definition tape_third :: "(int \<Rightarrow> real) \<Rightarrow> int \<Rightarrow> real" where
  "tape_third adj k = adj k / 3"

definition sample_configured :: "real CNewtonUpdateOnSubspace" where
  "sample_configured =
     \<lparr>iSample = 0, nPtDomain = 1, work = [0, 0], X = [[0, 0], [0, 0]], R = [[0, 0]],
      work2 = [0, 0], p = [0, 0], p_R = [], pn_R = [],
      EigenX = \<lparr>nrows = 2, colvec = [[0, 0], [0, 0]]\<rparr>,
      EigenR = \<lparr>nrows = 2, colvec = [[0, 0]]\<rparr>,
      DR = \<lparr>nrows = 2, colvec = [[0, 0]]\<rparr>,
      ProjectedJacobian = empty_matrix, NewtonInverseMatrix = empty_matrix,
      iBasis = 0, BasisSize_n = 0\<rparr>"

definition sample_window :: "real CNewtonUpdateOnSubspace" where
  "sample_window =
     sample_configured\<lparr>iSample := 1, work := [1 / 100, 1], X := [[0, 1], [1 / 100, 0]],
       work2 := [1 / 100, 1]\<rparr>"

definition sample_basis :: "real CNewtonUpdateOnSubspace" where
  "sample_basis =
     sample_window\<lparr>EigenX := \<lparr>nrows = 2, colvec = [[0, 1], [1 / 100, 0]]\<rparr>,
       R := [[0, - 1]], EigenR := \<lparr>nrows = 2, colvec = [[0, - 1]]\<rparr>, iBasis := 1\<rparr>"

definition sample_Newton :: "real CNewtonUpdateOnSubspace" where
  "sample_Newton =
     sample_basis\<lparr>DR := \<lparr>nrows = 2, colvec = [[0, - (1 / 3)]]\<rparr>,
       ProjectedJacobian := \<lparr>nrows = 1, colvec = [[2 / 3]]\<rparr>,
       NewtonInverseMatrix := \<lparr>nrows = 1, colvec = [[3 / 2]]\<rparr>\<rparr>"

definition sample_corrected :: "real CNewtonUpdateOnSubspace" where
  "sample_corrected =
     sample_Newton\<lparr>iSample := 1, X := [[1 / 100, 0], [0, - 1]], work := [1 / 100, 5],
       work2 := [1 / 100, 0], p := [0, 5], p_R := [- 5], pn_R := [- 5], BasisSize_n := 1\<rparr>"

text \<open>
  The run goes on with \<^verbatim>\<open>reset\<close>, the iterate (0.02, 0) with \<^verbatim>\<open>compute\<close>, and \<^verbatim>\<open>checkBasis\<close>
  with threshold 50 followed by \<^verbatim>\<open>computeProjectedJacobian\<close>, which leave the basis vector
  (0, 1).
\<close>

definition sample_reset :: "real CNewtonUpdateOnSubspace" where
  "sample_reset =
     sample_corrected\<lparr>X := [[0, - 1], [1 / 100, 0]], iSample := 0, iBasis := 0\<rparr>"

definition sample_restart :: "real CNewtonUpdateOnSubspace" where
  "sample_restart =
     sample_reset\<lparr>iSample := 1, work := [1 / 50, 0], work2 := [1 / 50, 0], p := [0, 0]\<rparr>"

definition sample_regrown :: "real CNewtonUpdateOnSubspace" where
  "sample_regrown =
     sample_restart\<lparr>EigenX := \<lparr>nrows = 2, colvec = [[0, - 1], [1 / 100, 0]]\<rparr>,
       R := [[0, 1]], EigenR := \<lparr>nrows = 2, colvec = [[0, 1]]\<rparr>, iBasis := 1,
       DR := \<lparr>nrows = 2, colvec = [[0, 1 / 3]]\<rparr>\<rparr>"

text \<open>The window the iterates (0, 2) and (0.01, 2) leave: the halo entries differ.\<close>

definition sample_window_halo :: "real CNewtonUpdateOnSubspace" where
  "sample_window_halo =
     sample_configured\<lparr>iSample := 1, work := [1 / 100, 2], X := [[0, 2], [1 / 100, 0]],
       work2 := [1 / 100, 2]\<rparr>"


section \<open>The history window\<close>

declare shiftHistoryLeft_from.simps [simp del]

lemma shiftHistoryLeft_from_eq:
  "1 \<le> i \<Longrightarrow> i \<le> length h \<Longrightarrow>
     shiftHistoryLeft_from i h = take (i - 1) h @ drop i h @ [h ! (i - 1)]"
proof (induction i h rule: shiftHistoryLeft_from.induct)
  case (1 i h)
  show ?case
  proof (cases "i < length h")
    case True
    let ?h' = "h[i - 1 := h ! i, i := h ! (i - 1)]"
    have ih: "shiftHistoryLeft_from (i + 1) ?h' = take i ?h' @ drop (i + 1) ?h' @ [?h' ! i]"
      using "1.IH" [OF True] True "1.prems" by simp
    have t: "take i ?h' = take (i - 1) h @ [h ! i]"
      using True "1.prems" by (cases i) (simp_all add: take_Suc_conv_app_nth)
    have d: "drop (i + 1) ?h' = drop (i + 1) h" by simp
    have n: "?h' ! i = h ! (i - 1)" using True by simp
    have c: "drop i h = h ! i # drop (i + 1) h"
      using True by (simp add: Cons_nth_drop_Suc)
    show ?thesis
      using True ih t d n c by (subst shiftHistoryLeft_from.simps) simp
  next
    case False
    with "1.prems" have e: "i = length h" by simp
    then obtain k where k: "length h = Suc k" using "1.prems" by (cases "length h") auto
    have "take (i - 1) h @ drop i h @ [h ! (i - 1)] = h"
      using e k take_Suc_conv_app_nth [of k h] by simp
    then show ?thesis
      using False by (subst shiftHistoryLeft_from.simps) simp
  qed
qed

lemma shiftHistoryLeft_rotate1: "shiftHistoryLeft h = rotate1 h"
proof (cases h)
  case Nil
  then show ?thesis
    by (simp add: shiftHistoryLeft_def shiftHistoryLeft_from.simps)
next
  case (Cons a t)
  then show ?thesis
    using shiftHistoryLeft_from_eq [of 1 h] by (simp add: shiftHistoryLeft_def)
qed

section \<open>One call of compute\<close>

lemma and_then_Inr [simp]: "and_then (Inr x) f = f x"
  by (simp add: and_then_def)

lemma and_then_Inl [simp]: "and_then (Inl e) f = Inl e"
  by (simp add: and_then_def)

lemma Index_inc_eq: "i + 1 < 2 ^ 64 \<Longrightarrow> Index_inc i = i + 1"
  by (simp add: Index_inc_def)

lemma dec_mod: "0 < i \<Longrightarrow> i < m \<Longrightarrow> (i + (m - 1)) mod m = i - (1::nat)"
proof -
  assume a: "0 < i" "i < m"
  then obtain k where k: "i = Suc k" by (cases i) auto
  have "i + (m - 1) = k + m" using a k by arith
  moreover have "(k + m) mod m = k" using a k by (simp del: mod_less add: mod_less)
  ultimately show ?thesis using k by simp
qed

lemma Index_dec_eq: "0 < i \<Longrightarrow> i < 2 ^ 64 \<Longrightarrow> Index_dec i = i - 1"
  unfolding Index_dec_def by (rule dec_mod)

lemma map_index_map2:
  "length xs = length ys \<Longrightarrow> map (\<lambda>i. f (xs ! i) (ys ! i)) [0..<length xs] = map2 f xs ys"
  by (rule nth_equalityI) simp_all

lemma rotate1_update_last:
  "xs \<noteq> [] \<Longrightarrow> (rotate1 xs)[length xs - 1 := d] = tl xs @ [d]"
  by (cases xs) (simp_all add: list_update_append)

lemma store_delta_configured:
  assumes c: "configured n s"
  shows "store_delta s =
    Inr (s\<lparr>iSample := (if iSample s + 1 = length (X s) then iSample s else iSample s + 1),
          X := (if iSample s + 1 = length (X s)
                then tl (X s) @ [map2 (-) (work s) (work2 s)]
                else (X s)[iSample s + 1 := map2 (-) (work s) (work2 s)]),
          work2 := work s,
          work := (if iSample s + 1 = length (X s) then hd (X s) else X s ! (iSample s + 1))\<rparr>)"
proof -
  from c have len: "2 \<le> length (X s)" "length (X s) < 2 ^ 64" "iSample s < length (X s)"
    and w: "length (work s) = n" "length (work2 s) = n"
    by (simp_all add: configured_def)
  have inc: "Index_inc (iSample s) = iSample s + 1"
    using len by (intro Index_inc_eq) simp
  have d: "map (\<lambda>i. work s ! i - work2 s ! i) [0..<length (work s)] = map2 (-) (work s) (work2 s)"
    using w by (intro map_index_map2) simp
  show ?thesis
  proof (cases "iSample s + 1 = length (X s)")
    case True
    have dec: "Index_dec (iSample s) = iSample s - 1"
      using len True by (intro Index_dec_eq) simp_all
    have inc2: "Index_inc (iSample s - 1) = iSample s"
      using len True by (simp add: Index_inc_def)
    have ne: "X s \<noteq> []" using len by auto
    have i: "iSample s = length (X s) - 1" using True by simp
    have u: "(rotate1 (X s))[iSample s := map2 (-) (work s) (work2 s)]
               = tl (X s) @ [map2 (-) (work s) (work2 s)]"
      using rotate1_update_last [OF ne] i by simp
    have r: "rotate1 (X s) ! iSample s = hd (X s)"
      using ne i by (cases "X s") (simp_all add: nth_append)
    show ?thesis
      using True inc dec inc2 d w len u r
      by (simp add: store_delta_def Let_def shiftHistoryLeft_rotate1)
  next
    case False
    then have lt: "iSample s + 1 < length (X s)" using len by simp
    show ?thesis
      using False inc d w lt by (simp add: store_delta_def Let_def)
  qed
qed

lemma map_const_upt: "map (\<lambda>i. c) [0..<k] = replicate k c"
  by (rule nth_equalityI) simp_all

lemma add_zero_vector:
  "length w = k \<Longrightarrow> map (\<lambda>i. w ! i + replicate k 0 ! i) [0..<k] = map (\<lambda>x. x + 0) w"
  by (rule nth_equalityI) simp_all

lemma configured_slot_length:
  "configured n s \<Longrightarrow> k < length (X s) \<Longrightarrow> length (X s ! k) = n"
  by (simp add: configured_def list_all_length)

lemma configured_hd_length:
  "configured n s \<Longrightarrow> length (hd (X s)) = n"
  using configured_slot_length [of n s 0] by (cases "X s") (simp_all add: configured_def)

lemma remove_projection_empty_basis:
  "iBasis s = 0 \<Longrightarrow> remove_projection s = Inr (s\<lparr>p := replicate (length (p s)) 0\<rparr>)"
  by (simp add: remove_projection_def map_const_upt)

section \<open>What resize establishes\<close>

lemma well_formed_fresh_matrix: "well_formed (fresh_matrix mem a r c)"
  by (simp add: well_formed_def fresh_matrix_def list_all_iff)

lemma list_all_update:
  "list_all P xs \<Longrightarrow> P v \<Longrightarrow> list_all P (xs[k := v])"
  by (auto simp: list_all_iff dest: set_update_subset_insert [THEN subsetD])

lemma resize_result:
  assumes "nptdomain \<le> npt" and "2 \<le> nsample" and "0 < nbasis"
  shows "resize mem nsample nbasis npt nvar nptdomain s =
    Inr (s\<lparr>iSample := 0, iBasis := 0,
           nPtDomain := (if nptdomain = 0 then npt else nptdomain),
           work := fresh mem 0 (npt * nvar),
           work2 := fresh mem 1 (npt * nvar),
           p := fresh mem 2 (npt * nvar),
           X := (map (\<lambda>i. fresh mem (8 + i) (npt * nvar)) [0..<nsample])
                  [0 := zero_vector (npt * nvar)],
           R := (map (\<lambda>i. fresh mem (8 + nsample + i) (npt * nvar)) [0..<nbasis])
                  [0 := zero_vector (npt * nvar)],
           EigenX := fresh_matrix mem 3 (npt * nvar) nsample,
           EigenR := fresh_matrix mem 4 (npt * nvar) 1,
           DR := fresh_matrix mem 5 (npt * nvar) 1\<rparr>)"
  using assms by (simp add: resize_def Let_def fresh_def)

lemma resize_configured:
  assumes r: "resize mem nsample nbasis npt nvar nptdomain s = Inr s'"
    and b: "nsample < 2 ^ 64" "nbasis < 2 ^ 64"
  shows "configured (npt * nvar) s' \<and> iSample s' = 0 \<and> iBasis s' = 0 \<and>
         length (X s') = nsample \<and> length (R s') = nbasis"
proof -
  have v: "nptdomain \<le> npt" "2 \<le> nsample"
    using r by (auto simp: resize_def split: if_splits)
  have nb: "0 < nbasis"
    using r v by (auto simp: resize_def Let_def split: if_splits)
  have fm: "nrows (fresh_matrix mem a r c) = r" "ncols (fresh_matrix mem a r c) = c" for a r c
    by (simp_all add: fresh_matrix_def ncols_def)
  have x: "list_all (\<lambda>x. length x = npt * nvar)
             ((map (\<lambda>i. fresh mem (8 + i) (npt * nvar)) [0..<nsample])[0 := zero_vector (npt * nvar)])"
    by (rule list_all_update) (simp_all add: list_all_iff fresh_def zero_vector_def)
  have y: "list_all (\<lambda>x. length x = npt * nvar)
             ((map (\<lambda>i. fresh mem (8 + nsample + i) (npt * nvar)) [0..<nbasis])[0 := zero_vector (npt * nvar)])"
    by (rule list_all_update) (simp_all add: list_all_iff fresh_def zero_vector_def)
  show ?thesis
    using r b v nb x y unfolding resize_result [OF v nb]
    by (auto simp: configured_def fm fresh_def well_formed_fresh_matrix)
qed

section \<open>What compute keeps\<close>

lemma times_length [simp]: "length (times m c) = nrows m"
  by (simp add: times_def)

lemma projectOntoSubspace_frame:
  assumes "projectOntoSubspace s = Inr s1"
  shows "s1 = s\<lparr>pn_R := p_R s, p_R := transpose_times (EigenR s) (work s),
                 p := times (EigenR s) (transpose_times (EigenR s) (work s))\<rparr>"
    and "nrows (EigenR s) = length (p s)"
  using assms by (auto simp: projectOntoSubspace_def Let_def split: if_splits)

lemma remove_projection_frame:
  assumes r: "remove_projection s = Inr s1" and c: "configured n s"
  shows "configured n s1 \<and> X s1 = X s \<and> iSample s1 = iSample s \<and> work2 s1 = work2 s \<and>
         iBasis s1 = iBasis s \<and> R s1 = R s"
proof (cases "0 < iBasis s")
  case True
  then obtain s0 where p: "projectOntoSubspace s = Inr s0"
    using r by (cases "projectOntoSubspace s") (simp_all add: remove_projection_def)
  note f = projectOntoSubspace_frame [OF p]
  have "s1 = s0\<lparr>work := map (\<lambda>i. work s0 ! i - p s0 ! i) [0..<length (work s0)]\<rparr>"
    using r True p by (simp add: remove_projection_def split: if_splits)
  then show ?thesis
    using c f by (simp add: configured_def)
next
  case False
  then have "s1 = s\<lparr>p := map (\<lambda>i. 0) [0..<length (p s)]\<rparr>"
    using r by (simp add: remove_projection_def)
  then show ?thesis
    using c by (simp add: configured_def)
qed

lemma updateProjectedSolution_frame:
  assumes u: "updateProjectedSolution s = Inr s1" and c: "configured n s"
  shows "configured n s1 \<and> X s1 = X s \<and> iSample s1 = iSample s \<and> work2 s1 = work2 s \<and>
         work s1 = work s \<and> iBasis s1 = iBasis s \<and> R s1 = R s"
  using u c
  by (auto simp: updateProjectedSolution_def Let_def configured_def split: if_splits)

lemma recombine_frame:
  assumes r: "recombine s = Inr s1" and c: "configured n s"
  shows "configured n s1 \<and> X s1 = X s \<and> iSample s1 = iSample s \<and> work2 s1 = work2 s \<and>
         iBasis s1 = iBasis s \<and> R s1 = R s"
proof -
  obtain s0 where u: "(if 0 < iBasis s then updateProjectedSolution s else Inr s) = Inr s0"
    using r by (cases "if 0 < iBasis s then updateProjectedSolution s else Inr s")
      (simp_all add: recombine_def)
  have f: "configured n s0 \<and> X s0 = X s \<and> iSample s0 = iSample s \<and> work2 s0 = work2 s \<and>
         work s0 = work s \<and> iBasis s0 = iBasis s \<and> R s0 = R s"
    using u c updateProjectedSolution_frame [of s s0 n] by (auto split: if_splits)
  have "s1 = s0\<lparr>work := map (\<lambda>i. work2 s0 ! i + p s0 ! i) [0..<length (work s0)]\<rparr>"
    using r u by (simp add: recombine_def split: if_splits)
  then show ?thesis
    using f c by (simp add: configured_def)
qed

text \<open>What one successful call of compute does to the window.\<close>

lemma store_delta_frame:
  assumes c: "configured n s"
  shows "\<exists>s1. store_delta s = Inr s1 \<and> configured n s1 \<and> work2 s1 = work s \<and>
     iBasis s1 = iBasis s \<and> R s1 = R s \<and> p s1 = p s \<and> length (X s1) = length (X s) \<and>
     X s1 = (if iSample s + 1 = length (X s)
             then tl (X s) @ [map2 (-) (work s) (work2 s)]
             else (X s)[iSample s + 1 := map2 (-) (work s) (work2 s)]) \<and>
     iSample s1 = (if iSample s + 1 = length (X s) then iSample s else iSample s + 1)"
proof -
  have d: "length (map2 (-) (work s) (work2 s)) = n"
    using c by (simp add: configured_def)
  have x: "list_all (\<lambda>x. length x = n) (X s)" and ne: "X s \<noteq> []"
    using c by (auto simp: configured_def)
  have t: "list_all (\<lambda>x. length x = n) (tl (X s) @ [map2 (-) (work s) (work2 s)])"
    using x d ne by (cases "X s") simp_all
  have u: "list_all (\<lambda>x. length x = n) ((X s)[iSample s + 1 := map2 (-) (work s) (work2 s)])"
    using x d by (intro list_all_update) simp_all
  have h: "length (hd (X s)) = n" by (rule configured_hd_length [OF c])
  have k: "iSample s + 1 \<noteq> length (X s) \<Longrightarrow> length (X s ! (iSample s + 1)) = n"
    using c configured_slot_length [OF c, of "iSample s + 1"] by (simp add: configured_def)
  show ?thesis
    unfolding store_delta_configured [OF c]
    using c t u h k ne by (auto simp: configured_def)
qed

lemma compute_frame:
  assumes r: "compute s = Inr (res, s')" and c: "configured n s"
  shows "configured n s' \<and> iBasis s' = iBasis s \<and> R s' = R s \<and>
     length (X s') = length (X s) \<and>
     X s' = (if iSample s + 1 = length (X s)
             then tl (X s) @ [map2 (-) (work2 s') (work2 s)]
             else (X s)[iSample s + 1 := map2 (-) (work2 s') (work2 s)]) \<and>
     iSample s' = (if iSample s + 1 = length (X s) then iSample s else iSample s + 1)"
proof -
  obtain s1 where r1: "remove_projection s = Inr s1"
    using r by (cases "remove_projection s") (simp_all add: compute_def)
  note f1 = remove_projection_frame [OF r1 c]
  obtain s2 where r2: "store_delta s1 = Inr s2" and f2: "configured n s2" "work2 s2 = work s1"
     "iBasis s2 = iBasis s1" "R s2 = R s1" "length (X s2) = length (X s1)"
     "X s2 = (if iSample s1 + 1 = length (X s1)
             then tl (X s1) @ [map2 (-) (work s1) (work2 s1)]
             else (X s1)[iSample s1 + 1 := map2 (-) (work s1) (work2 s1)])"
     "iSample s2 = (if iSample s1 + 1 = length (X s1) then iSample s1 else iSample s1 + 1)"
    using store_delta_frame [of n s1] f1 by blast
  have r3: "recombine s2 = Inr s'"
    using r r1 r2 by (cases "recombine s2") (simp_all add: compute_def)
  note f3 = recombine_frame [OF r3 f2(1)]
  show ?thesis
    using f1 f2 f3 by simp
qed

text \<open>
  With the basis empty, what comes back is the iterate with the zero of \<open>p\<close> added to each
  entry, whatever the scalar type.
\<close>

lemma compute_empty_basis_adds_zero:
  assumes c: "configured n s" and b: "iBasis s = 0"
  shows "\<exists>s'. compute s = Inr (map (\<lambda>x. x + 0) (work s), s') \<and>
           work s' = map (\<lambda>x. x + 0) (work s) \<and> work2 s' = work s \<and> p s' = replicate n 0"
proof -
  let ?s1 = "s\<lparr>p := replicate (length (p s)) 0\<rparr>"
  have r: "remove_projection s = Inr ?s1"
    using b by (rule remove_projection_empty_basis)
  have n: "length (p s) = n" "length (work s) = n" using c by (simp_all add: configured_def)
  have c1: "configured n ?s1" using c by (simp add: configured_def)
  obtain s2 where s2: "store_delta ?s1 = Inr s2" and w2: "work2 s2 = work s"
    and p2: "p s2 = replicate n 0" and b2: "iBasis s2 = 0" and c2: "configured n s2"
    using store_delta_frame [OF c1] n b by auto
  have "length (work s2) = n" using c2 by (simp add: configured_def)
  then have "recombine s2 = Inr (s2\<lparr>work := map (\<lambda>x. x + 0) (work s)\<rparr>)"
    using w2 p2 b2 n add_zero_vector [of "work s" n] by (simp add: recombine_def)
  then have "compute s = Inr (map (\<lambda>x. x + 0) (work s), s2\<lparr>work := map (\<lambda>x. x + 0) (work s)\<rparr>)"
    using r s2 by (simp add: compute_def FPresult_def)
  then show ?thesis
    using p2 w2 by auto
qed

lemma compute_empty_basis_aux:
  fixes s :: "real CNewtonUpdateOnSubspace"
  assumes c: "configured n s" and b: "iBasis s = 0"
  shows "\<exists>s'. compute s = Inr (work s, s') \<and> work s' = work s \<and> work2 s' = work s \<and>
           p s' = replicate n 0"
  using compute_empty_basis_adds_zero [OF c b] by simp
section \<open>The empty basis\<close>

text \<open>
  In doubles, adding the positive zero leaves every value as it is, except the negative zero.
\<close>

lemma binary64_add_zero: "x + 0 = (if x = MinusZero then Number 0 else x)"
  by (cases x) (simp_all add: zero_binary64_def)

lemma sample_doubles:
  "\<exists>s. resize (\<lambda>a i. 0) 2 1 4 1 0 (default_object :: binary64 CNewtonUpdateOnSubspace) = Inr s \<and>
       configured 4 s \<and> iBasis s = 0 \<and> length (work s) = 4"
proof -
  obtain s :: "binary64 CNewtonUpdateOnSubspace"
    where s: "resize (\<lambda>a i. 0) 2 1 4 1 0 default_object = Inr s"
    using resize_result [of 0 4 2 1 "\<lambda>a i. 0 :: binary64" 1 default_object] by simp
  have "configured (4 * 1) s \<and> iSample s = 0 \<and> iBasis s = 0"
    using resize_configured [OF s] by simp
  then show ?thesis using s by (auto simp: configured_def)
qed

text \<open>
  Claim C1 fails for an iterate with a negative zero.  The object right after
  \<^verbatim>\<open>resize(2, 1, 4, 1)\<close> has no active basis vector; with the iterate (3, -0.0, +inf, NaN)
  stored in \<open>work\<close>, \<^verbatim>\<open>compute\<close> returns (3, +0.0, +inf, NaN): the second entry is not the
  one that was stored.
\<close>

theorem negative_zero_comes_back_positive:
  "\<exists>s s1 s'. resize (\<lambda>a i. 0) 2 1 4 1 0 (default_object :: binary64 CNewtonUpdateOnSubspace) = Inr s \<and>
      configured 4 s \<and> iBasis s = 0 \<and>
      store_FPresult [Number 3, MinusZero, PlusInfinity, NotANumber] s = Inr s1 \<and>
      compute s1 = Inr ([Number 3, Number 0, PlusInfinity, NotANumber], s') \<and>
      work s' = [Number 3, Number 0, PlusInfinity, NotANumber] \<and>
      work s' \<noteq> work s1"
proof -
  obtain s :: "binary64 CNewtonUpdateOnSubspace"
    where s: "resize (\<lambda>a i. 0) 2 1 4 1 0 default_object = Inr s"
      and c: "configured 4 s" and b: "iBasis s = 0" and l: "length (work s) = 4"
    using sample_doubles by blast
  let ?w = "[Number 3, MinusZero, PlusInfinity, NotANumber]"
  let ?s1 = "s\<lparr>work := ?w\<rparr>"
  have st: "store_FPresult ?w s = Inr ?s1" using l by (simp add: store_FPresult_def)
  have c1: "configured 4 ?s1" and b1: "iBasis ?s1 = 0"
    using c b by (simp_all add: configured_def)
  obtain s' where "compute ?s1 = Inr (map (\<lambda>x. x + 0) (work ?s1), s')"
    and "work s' = map (\<lambda>x. x + 0) (work ?s1)"
    using compute_empty_basis_adds_zero [OF c1 b1] by blast
  then have "compute ?s1 = Inr ([Number 3, Number 0, PlusInfinity, NotANumber], s')"
    and "work s' = [Number 3, Number 0, PlusInfinity, NotANumber]"
    by (simp_all add: binary64_add_zero)
  then show ?thesis using s c b st by auto
qed

text \<open>
  Claim C1, as it holds.  For a configured object of doubles with no active basis vector
  (\<open>iBasis = 0\<close>), one call of \<^verbatim>\<open>compute\<close> succeeds and returns the content of \<open>work\<close>
  after the call, which is also what the result accessor gives; it is the iterate that was
  stored in \<open>work\<close> before the call, entry by entry, with every entry unchanged except that a
  negative zero comes back as the positive zero.  The projected-solution buffer \<open>p\<close> is left
  equal to the zero vector of the size of the solution.
\<close>

theorem compute_with_empty_basis:
  fixes s :: "binary64 CNewtonUpdateOnSubspace"
  assumes c: "configured n s" and b: "iBasis s = 0"
  shows "\<exists>s'. compute s = Inr (work s', s') \<and> FPresult s' = work s' \<and>
              work s' = map (\<lambda>x. if x = MinusZero then Number 0 else x) (work s) \<and>
              p s' = zero_vector n"
  using compute_empty_basis_adds_zero [OF c b]
  by (auto simp: FPresult_def zero_vector_def binary64_add_zero)

text \<open>
  An instance: the object right after \<^verbatim>\<open>resize(2, 1, 4, 1)\<close>, with the iterate
  (3, -0.0, -inf, -2.5).
\<close>

theorem compute_with_empty_basis_witness:
  "\<exists>s s1 s'. resize (\<lambda>a i. 0) 2 1 4 1 0 (default_object :: binary64 CNewtonUpdateOnSubspace) = Inr s \<and>
      store_FPresult [Number 3, MinusZero, MinusInfinity, Number (- 5 / 2)] s = Inr s1 \<and>
      iBasis s1 = 0 \<and>
      compute s1 = Inr ([Number 3, Number 0, MinusInfinity, Number (- 5 / 2)], s') \<and>
      FPresult s' = [Number 3, Number 0, MinusInfinity, Number (- 5 / 2)] \<and>
      p s' = zero_vector 4"
proof -
  obtain s :: "binary64 CNewtonUpdateOnSubspace"
    where s: "resize (\<lambda>a i. 0) 2 1 4 1 0 default_object = Inr s"
      and c: "configured 4 s" and b: "iBasis s = 0" and l: "length (work s) = 4"
    using sample_doubles by blast
  let ?w = "[Number 3, MinusZero, MinusInfinity, Number (- 5 / 2)]"
  let ?s1 = "s\<lparr>work := ?w\<rparr>"
  have st: "store_FPresult ?w s = Inr ?s1" using l by (simp add: store_FPresult_def)
  have c1: "configured 4 ?s1" and b1: "iBasis ?s1 = 0"
    using c b by (simp_all add: configured_def)
  show ?thesis
    using compute_with_empty_basis [OF c1 b1] s st b1 by auto
qed

section \<open>The basis capacity in resize\<close>

text \<open>
  Claim C9.  With parameters that pass the documented checks (\<open>nptdomain \<le> npt\<close> and
  \<open>nsample \<ge> 2\<close>), \<^verbatim>\<open>resize\<close> creates exactly \<open>nbasis\<close> basis slots and then writes to
  \<open>R[0]\<close>: the write is past the end of \<open>R\<close> exactly when \<open>nbasis = 0\<close>, and for every
  \<open>nbasis \<ge> 1\<close> the call succeeds, with \<open>nbasis\<close> slots of which the first is zero.
\<close>

theorem resize_needs_a_basis_slot:
  assumes "nptdomain \<le> npt" and "2 \<le> nsample"
  shows "(resize mem nsample nbasis npt nvar nptdomain s = Inl OutOfRange \<longleftrightarrow> nbasis = 0) \<and>
         (0 < nbasis \<longrightarrow> (\<exists>s'. resize mem nsample nbasis npt nvar nptdomain s = Inr s' \<and>
                                  length (R s') = nbasis \<and> R s' ! 0 = zero_vector (npt * nvar)))"
proof (cases "nbasis = 0")
  case True
  then show ?thesis using assms by (simp add: resize_def Let_def)
next
  case False
  then have nb: "0 < nbasis" by simp
  show ?thesis
    using False nb unfolding resize_result [OF assms nb] by simp
qed


theorem resize_needs_a_basis_slot_witness:
  "resize (\<lambda>a i. 0) 2 0 1 1 0 (default_object :: real CNewtonUpdateOnSubspace) = Inl OutOfRange \<and>
   (\<exists>s'. resize (\<lambda>a i. 0) 2 1 1 1 0 (default_object :: real CNewtonUpdateOnSubspace) = Inr s' \<and>
      length (R s') = 1 \<and> R s' ! 0 = zero_vector (1 * 1))"
  using resize_needs_a_basis_slot [of 0 1 2 "\<lambda>a i. 0" 0 1 "default_object :: real CNewtonUpdateOnSubspace"]
    resize_needs_a_basis_slot [of 0 1 2 "\<lambda>a i. 0" 1 1 "default_object :: real CNewtonUpdateOnSubspace"]
  by simp

section \<open>The window is first-in first-out\<close>

lemma most_recent_append:
  "most_recent k (most_recent k xs @ ys) = most_recent k (xs @ ys)"
proof (cases "length xs \<le> k")
  case True
  then show ?thesis by (simp add: most_recent_def)
next
  case False
  then have l: "k < length xs" by simp
  have "most_recent k (most_recent k xs @ ys) = drop (length ys) (drop (length xs - k) xs @ ys)"
    using l by (simp add: most_recent_def)
  also have "\<dots> = drop (length ys) (drop (length xs - k) (xs @ ys))"
    using l by simp
  also have "\<dots> = drop (length xs + length ys - k) (xs @ ys)"
    using l by (simp only: drop_drop) (simp add: add.commute)
  finally show ?thesis by (simp add: most_recent_def)
qed


lemma length_most_recent [simp]: "length (most_recent k xs) = min k (length xs)"
  by (simp add: most_recent_def)

lemma length_deltas [simp]: "length (deltas previous ws) = length ws"
  by (induction ws arbitrary: previous) simp_all

lemma window_step:
  assumes i: "i < length xs" and n: "2 \<le> length xs"
  shows "take ((if i + 1 = length xs then i else i + 1) + 1)
           (if i + 1 = length xs then tl xs @ [d] else xs[i + 1 := d])
         = most_recent (length xs) (take (i + 1) xs @ [d])"
proof (cases "i + 1 = length xs")
  case True
  then have "most_recent (length xs) (take (i + 1) xs @ [d]) = drop 1 (xs @ [d])"
    by (simp add: most_recent_def)
  also have "\<dots> = tl xs @ [d]" using n by (cases xs) simp_all
  finally show ?thesis using True n by simp
next
  case False
  then have l: "i + 1 < length xs" using i by simp
  have "take (i + 2) (xs[i + 1 := d]) = take (i + 1) xs @ [d]"
    using l by (simp add: take_Suc_conv_app_nth)
  then show ?thesis using False l by (simp add: most_recent_def)
qed

lemma compute_window:
  assumes r: "compute s = Inr (res, s')" and c: "configured n s"
  shows "window s' = most_recent (length (X s)) (window s @ [map2 (-) (work2 s') (work2 s)])"
proof -
  note f = compute_frame [OF r c]
  have i: "iSample s < length (X s)" "2 \<le> length (X s)" using c by (simp_all add: configured_def)
  show ?thesis
    using f window_step [OF i, of "map2 (-) (work2 s') (work2 s)"]
    by (simp add: window_def)
qed

lemma store_configured:
  "configured n s \<Longrightarrow> length w = n \<Longrightarrow>
     store_FPresult w s = Inr (s\<lparr>work := w\<rparr>) \<and> configured n (s\<lparr>work := w\<rparr>)"
  by (simp add: store_FPresult_def configured_def)

lemma feed_window:
  assumes "configured n s" and "iBasis s = 0" and "list_all (\<lambda>w. length w = n) ws"
  shows "\<exists>s'. feed ws s = Inr s' \<and> configured n s' \<and> iBasis s' = 0 \<and>
           length (X s') = length (X s) \<and>
           window s' = most_recent (length (X s)) (window s @ deltas (work2 s) ws)"
  using assms
proof (induction ws arbitrary: s)
  case Nil
  have "length (window s) \<le> length (X s)" by (simp add: window_def)
  then show ?case using Nil by (simp add: most_recent_def)
next
  case (Cons w ws)
  let ?s0 = "s\<lparr>work := w\<rparr>"
  have w: "length w = n" and ws: "list_all (\<lambda>w. length w = n) ws"
    using Cons.prems by simp_all
  have st: "store_FPresult w s = Inr ?s0" and c0: "configured n ?s0"
    using store_configured [OF Cons.prems(1) w] by simp_all
  have b0: "iBasis ?s0 = 0" using Cons.prems by simp
  obtain s1 where r: "compute ?s0 = Inr (w, s1)" and w2: "work2 s1 = w"
    using compute_empty_basis_aux [OF c0 b0] by auto
  note f = compute_frame [OF r c0]
  have c1: "configured n s1" using f by blast
  have "iBasis s1 = iBasis ?s0" using f by blast
  then have b1: "iBasis s1 = 0" using b0 by simp
  have "length (X s1) = length (X ?s0)" using f by blast
  then have l1: "length (X s1) = length (X s)" by simp
  have w1: "window s1 = most_recent (length (X s)) (window s @ [map2 (-) w (work2 s)])"
    using compute_window [OF r c0] w2 by (simp add: window_def)
  obtain s' where s': "feed ws s1 = Inr s'" "configured n s'" "iBasis s' = 0"
      "length (X s') = length (X s1)"
      "window s' = most_recent (length (X s1)) (window s1 @ deltas (work2 s1) ws)"
    using Cons.IH [OF c1 b1 ws] by blast
  have "window s' = most_recent (length (X s)) (window s @ deltas (work2 s) (w # ws))"
    using s'(5) l1 w1 w2 by (simp add: most_recent_append)
  then show ?case
    using st r s' l1 by simp
qed




section \<open>checkBasis on a configured object\<close>

lemma for_each_append:
  "for_each (xs @ ys) body s = and_then (for_each xs body s) (for_each ys body)"
proof (induction xs arbitrary: s)
  case Nil
  show ?case by simp
next
  case (Cons i xs)
  show ?case by (cases "body i s") (simp_all add: Cons.IH)
qed

lemma for_each_invariant:
  assumes "for_each js body s = Inr s'"
    and "\<forall>i t t'. body i t = Inr t' \<longrightarrow> P t \<longrightarrow> P t'"
    and "P s"
  shows "P s'"
  using assms
proof (induction js arbitrary: s)
  case Nil
  then show ?case by simp
next
  case (Cons i js)
  from Cons.prems(1) obtain t where t: "body i s = Inr t" and r: "for_each js body t = Inr s'"
    by (cases "body i s") simp_all
  have "P t" using Cons.prems(2,3) t by blast
  then show ?case using Cons.IH [OF r Cons.prems(2)] by blast
qed

lemma configured_map_take:
  "configured n s \<Longrightarrow> map (take (length (X s ! 0))) (X s) = X s"
proof -
  assume c: "configured n s"
  then have a: "list_all (\<lambda>x. length x = n) (X s)" and "0 < length (X s)"
    by (auto simp: configured_def)
  then have "length (X s ! 0) = n" by (simp add: list_all_length)
  then show ?thesis using a by (simp add: list_all_iff map_idI)
qed

lemma copy_window_prefix:
  assumes c: "configured n s" and k: "k \<le> length (X s)"
  shows "for_each [0..<k] copy_window_column s =
     Inr (s\<lparr>EigenX := (EigenX s)\<lparr>colvec := take k (X s) @ drop k (colvec (EigenX s))\<rparr>\<rparr>)"
  using k
proof (induction k)
  case 0
  show ?case by simp
next
  case (Suc k)
  let ?t = "s\<lparr>EigenX := (EigenX s)\<lparr>colvec := take k (X s) @ drop k (colvec (EigenX s))\<rparr>\<rparr>"
  have ih: "for_each [0..<k] copy_window_column s = Inr ?t" using Suc by simp
  have l: "length (colvec (EigenX s)) = length (X s)" "nrows (EigenX s) = n"
    using c by (simp_all add: configured_def ncols_def)
  have "0 < length (X s)" using c by (auto simp: configured_def)
  then have x: "length (X s ! 0) = n" "length (X s ! k) = n"
    using Suc.prems configured_slot_length [OF c] by simp_all
  have u: "(take k (X s) @ drop k (colvec (EigenX s)))[k := X s ! k]
             = take (Suc k) (X s) @ drop (Suc k) (colvec (EigenX s))"
    using Suc.prems l
    by (simp add: list_update_append take_Suc_conv_app_nth upd_conv_take_nth_drop
        drop_Suc [symmetric] Cons_nth_drop_Suc [symmetric])
  have "copy_window_column k ?t =
     Inr (s\<lparr>EigenX := (EigenX s)\<lparr>colvec := take (Suc k) (X s) @ drop (Suc k) (colvec (EigenX s))\<rparr>\<rparr>)"
    using Suc.prems l x u by (simp add: copy_window_column_def ncols_def set_col_def)
  then show ?case
    using ih by (simp add: for_each_append)
qed

lemma copy_window_configured:
  assumes c: "configured n s"
  shows "copy_window s = Inr (s\<lparr>EigenX := window_matrix s\<rparr>)"
proof -
  have l: "length (colvec (EigenX s)) = length (X s)"
    using c by (simp add: configured_def ncols_def)
  show ?thesis
    using copy_window_prefix [OF c, of "length (X s)"] l configured_map_take [OF c]
    by (simp add: copy_window_def window_matrix_def)
qed

lemma window_matrix_dims:
  "configured n s \<Longrightarrow> nrows (window_matrix s) = n \<and> ncols (window_matrix s) = length (X s)"
  by (simp add: window_matrix_def configured_def ncols_def)

lemma Rdiag_in_range:
  "i < min (nrows m) (ncols m) \<Longrightarrow> Rdiag lib m i = Inr (householderQR_diagonal lib m i)"
  by (simp add: Rdiag_def)

lemma Rdiag_out_of_range:
  "min (nrows m) (ncols m) \<le> i \<Longrightarrow> Rdiag lib m i = Inl (DiagonalOutOfRange i)"
  by (auto simp: Rdiag_def)

lemma quotient_loop_slots:
  assumes "\<forall>i\<in>set js. i + 1 < min (nrows m) (ncols m)" and "distinct js"
  shows "\<exists>q'. quotient_loop lib m js q = Inr q' \<and> length q' = length q \<and>
     (\<forall>i<length q. q' ! i =
        (if i \<in> set js \<and> dbl_ne (householderQR_diagonal lib m (i + 1)) (Finite 0)
         then dbl_div (householderQR_diagonal lib m i) (householderQR_diagonal lib m (i + 1))
         else q ! i))"
  using assms
proof (induction js arbitrary: q)
  case Nil
  show ?case by simp
next
  case (Cons j js)
  have j: "j + 1 < min (nrows m) (ncols m)" "j < min (nrows m) (ncols m)" "j \<notin> set js"
    using Cons.prems by auto
  have r: "\<forall>i\<in>set js. i + 1 < min (nrows m) (ncols m)" "distinct js"
    using Cons.prems by auto
  let ?d0 = "householderQR_diagonal lib m j" and ?d1 = "householderQR_diagonal lib m (j + 1)"
  show ?case
  proof (cases "dbl_ne ?d1 (Finite 0)")
    case True
    obtain q' where q': "quotient_loop lib m js (q[j := dbl_div ?d0 ?d1]) = Inr q'"
      "length q' = length q"
      "\<forall>i<length q. q' ! i =
        (if i \<in> set js \<and> dbl_ne (householderQR_diagonal lib m (i + 1)) (Finite 0)
         then dbl_div (householderQR_diagonal lib m i) (householderQR_diagonal lib m (i + 1))
         else q[j := dbl_div ?d0 ?d1] ! i)"
      using Cons.IH [OF r, of "q[j := dbl_div ?d0 ?d1]"] by auto
    have "quotient_loop lib m (j # js) q = Inr q'"
      using True q'(1) Rdiag_in_range [OF j(1)] Rdiag_in_range [OF j(2)] by simp
    moreover have "q' ! i =
        (if i \<in> set (j # js) \<and> dbl_ne (householderQR_diagonal lib m (i + 1)) (Finite 0)
         then dbl_div (householderQR_diagonal lib m i) (householderQR_diagonal lib m (i + 1))
         else q ! i)" if i: "i < length q" for i
    proof (cases "i = j")
      case e: True
      then show ?thesis using q'(3) i j(3) True by simp
    next
      case False
      then show ?thesis using q'(3) i by simp
    qed
    ultimately show ?thesis
      using q'(2) by blast
  next
    case False
    obtain q' where q': "quotient_loop lib m js q = Inr q'" "length q' = length q"
      "\<forall>i<length q. q' ! i =
        (if i \<in> set js \<and> dbl_ne (householderQR_diagonal lib m (i + 1)) (Finite 0)
         then dbl_div (householderQR_diagonal lib m i) (householderQR_diagonal lib m (i + 1))
         else q ! i)"
      using Cons.IH [OF r, of q] by auto
    have "quotient_loop lib m (j # js) q = Inr q'"
      using False q'(1) Rdiag_in_range [OF j(1)] by simp
    then show ?thesis
      using q'(2,3) False j(3) by auto
  qed
qed

lemma quotient_loop_fails:
  assumes "\<forall>i\<in>set js. i + 1 < min (nrows m) (ncols m)"
    and "min (nrows m) (ncols m) \<le> k + 1"
  shows "quotient_loop lib m (js @ k # ks) q = Inl (DiagonalOutOfRange (k + 1))"
  using assms(1)
proof (induction js arbitrary: q)
  case Nil
  show ?case using Rdiag_out_of_range [OF assms(2)] by simp
next
  case (Cons j js)
  have j: "j + 1 < min (nrows m) (ncols m)" "j < min (nrows m) (ncols m)"
    using Cons.prems by auto
  have r: "\<forall>i\<in>set js. i + 1 < min (nrows m) (ncols m)" using Cons.prems by auto
  show ?case
    using Cons.IH [OF r] Rdiag_in_range [OF j(1)] Rdiag_in_range [OF j(2)] by simp
qed

text \<open>The quotients when the window has no more slots than the solution has entries.\<close>

lemma quotients_in_range:
  assumes c: "configured n s" and k: "length (X s) \<le> n"
  shows "\<exists>q. Krylov_Criterion_Quotients lib (window_matrix s) (length (X s)) = Inr q \<and>
     length q = length (X s) - 1 \<and>
     (\<forall>i<length (X s) - 1. q ! i = Krylov_quotient lib s i)"
proof -
  have d: "min (nrows (window_matrix s)) (ncols (window_matrix s)) = length (X s)"
    using window_matrix_dims [OF c] k by simp
  have a: "\<forall>i\<in>set [0..<length (X s) - 1]. i + 1 < min (nrows (window_matrix s)) (ncols (window_matrix s))"
    unfolding d by auto
  show ?thesis
    using quotient_loop_slots [OF a, of lib "replicate (length (X s) - 1) (Finite 0)"]
    by (auto simp: Krylov_Criterion_Quotients_def Krylov_quotient_def)
qed

text \<open>The quotients when the window has more slots than the solution has entries.\<close>

lemma quotients_out_of_range:
  assumes c: "configured n s" and k: "n < length (X s)"
  shows "Krylov_Criterion_Quotients lib (window_matrix s) (length (X s))
           = Inl (DiagonalOutOfRange (max n 1))"
proof -
  have d: "min (nrows (window_matrix s)) (ncols (window_matrix s)) = n"
    using window_matrix_dims [OF c] k by simp
  have two: "2 \<le> length (X s)" using c by (simp add: configured_def)
  let ?k = "max n 1 - 1"
  have lt: "?k < length (X s) - 1" using k two by auto
  have split: "[0..<length (X s) - 1] = [0..<?k] @ ?k # [Suc ?k..<length (X s) - 1]"
    using lt by (metis le0 upt_add_eq_append upt_conv_Cons less_imp_le_nat add_0 
        le_add_diff_inverse)
  have a: "\<forall>i\<in>set [0..<?k]. i + 1 < min (nrows (window_matrix s)) (ncols (window_matrix s))"
    unfolding d by auto
  have b: "min (nrows (window_matrix s)) (ncols (window_matrix s)) \<le> ?k + 1"
    unfolding d by auto
  have e: "?k + 1 = max n 1" by auto
  show ?thesis
    unfolding Krylov_Criterion_Quotients_def split
    using quotient_loop_fails [OF a b, of lib] e by simp
qed

lemma list_all_nth: "list_all P xs \<Longrightarrow> k < length xs \<Longrightarrow> P (xs ! k)"
  by (simp add: list_all_length)

lemma subtract_projection_loop:
  assumes "\<forall>i\<in>set js. n \<le> length (basis ! i)" and "length v = n"
  shows "\<exists>v'. for_each js (subtract_projection basis n) v = Inr v' \<and> length v' = n"
  using assms
proof (induction js arbitrary: v)
  case Nil
  then show ?case by simp
next
  case (Cons j js)
  let ?v = "map2 (-) v (map (\<lambda>x. dot v (take n (basis ! j)) * x) (take n (basis ! j)))"
  have s: "subtract_projection basis n j v = Inr ?v"
    using Cons.prems by (simp add: subtract_projection_def Let_def)
  have l: "length ?v = n" using Cons.prems by simp
  have r: "\<forall>i\<in>set js. n \<le> length (basis ! i)" using Cons.prems by simp
  show ?case using Cons.IH [OF r l] s by simp
qed

lemma copy_basis_prefix:
  assumes r: "list_all (\<lambda>r. length r = n) (R s)" and e: "nrows (EigenR s) = n"
    and m: "length (colvec (EigenR s)) \<le> length (R s)" and k: "k \<le> length (colvec (EigenR s))"
  shows "for_each [0..<k] copy_basis_column s =
     Inr (s\<lparr>EigenR := (EigenR s)\<lparr>colvec := take k (R s) @ drop k (colvec (EigenR s))\<rparr>\<rparr>)"
  using k
proof (induction k)
  case 0
  show ?case by simp
next
  case (Suc k)
  let ?t = "s\<lparr>EigenR := (EigenR s)\<lparr>colvec := take k (R s) @ drop k (colvec (EigenR s))\<rparr>\<rparr>"
  have ih: "for_each [0..<k] copy_basis_column s = Inr ?t" using Suc by simp
  have kr: "k < length (R s)" using Suc.prems m by simp
  then have "0 < length (R s)" by auto
  then have x: "length (R s ! 0) = n" "length (R s ! k) = n"
    using list_all_nth [OF r] kr by simp_all
  have u: "(take k (R s) @ drop k (colvec (EigenR s)))[k := R s ! k]
             = take (Suc k) (R s) @ drop (Suc k) (colvec (EigenR s))"
    using Suc.prems kr
    by (simp add: list_update_append take_Suc_conv_app_nth upd_conv_take_nth_drop
        drop_Suc [symmetric] Cons_nth_drop_Suc [symmetric])
  have "copy_basis_column k ?t =
     Inr (s\<lparr>EigenR := (EigenR s)\<lparr>colvec := take (Suc k) (R s) @ drop (Suc k) (colvec (EigenR s))\<rparr>\<rparr>)"
    using kr e x u by (simp add: copy_basis_column_def set_col_def)
  then show ?case
    using ih by (simp add: for_each_append)
qed

lemma Eigen_resize_dims:
  "nrows (Eigen_resize mem a m r c) = r \<and> ncols (Eigen_resize mem a m r c) = c"
  by (simp add: Eigen_resize_def fresh_matrix_def ncols_def)

lemma well_formed_take:
  "list_all (\<lambda>r. length r = n) rs \<Longrightarrow> well_formed \<lparr>nrows = n, colvec = take k rs\<rparr>"
  by (auto simp: well_formed_def list_all_iff dest: in_set_takeD)

lemma appendBasisVector_configured:
  assumes c: "configured n s" and b: "iBasis s < length (R s)"
  shows "\<exists>s' NewR. appendBasisVector lib mem s = Inr s' \<and>
     for_each [0..<iBasis s] (subtract_projection (R s) n)
       (map (householderQ_times lib (EigenX s) (unit_vector n 0)) [0..<n]) = Inr NewR \<and>
     s' = s\<lparr>iBasis := iBasis s + 1,
            R := (R s)[iBasis s := map (normalized lib NewR) [0..<n]],
            EigenR := \<lparr>nrows = n,
                       colvec = take (iBasis s + 1)
                                  ((R s)[iBasis s := map (normalized lib NewR) [0..<n]])\<rparr>\<rparr> \<and>
     configured n s'"
proof -
  have rl: "length (R s) < 2 ^ 64" and ra: "list_all (\<lambda>r. length r = n) (R s)"
    and ex: "nrows (EigenX s) = n" and er: "nrows (EigenR s) = n"
    using c by (simp_all add: configured_def)
  have inc: "Index_inc (iBasis s) = iBasis s + 1"
    using b rl by (intro Index_inc_eq) simp
  have dec: "Index_dec (iBasis s + 1) = iBasis s"
    using b rl Index_dec_eq [of "iBasis s + 1"] by simp
  have "0 < length (R s)" using b by auto
  then have l0: "length (R s ! 0) = n" and lk: "length (R s ! iBasis s) = n"
    using list_all_nth [OF ra] b by simp_all
  let ?q = "map (householderQ_times lib (EigenX s) (unit_vector n 0)) [0..<n]"
  have "\<forall>i\<in>set [0..<iBasis s]. n \<le> length (R s ! i)"
    using ra b by (simp add: list_all_length)
  then obtain NewR where g: "for_each [0..<iBasis s] (subtract_projection (R s) n) ?q = Inr NewR"
    using subtract_projection_loop [of "[0..<iBasis s]" n "R s" ?q] by auto
  let ?u = "map (normalized lib NewR) [0..<n]"
  let ?R = "(R s)[iBasis s := ?u]"
  let ?s3 = "s\<lparr>iBasis := iBasis s + 1, R := ?R,
               EigenR := Eigen_resize mem 4 (EigenR s) n (iBasis s + 1)\<rparr>"
  have ra': "list_all (\<lambda>r. length r = n) ?R"
    using ra by (intro list_all_update) simp_all
  have d: "nrows (EigenR ?s3) = n" "length (colvec (EigenR ?s3)) = iBasis s + 1"
    using Eigen_resize_dims [of mem 4 "EigenR s" n "iBasis s + 1"] by (simp_all add: ncols_def)
  have cp: "for_each [0..<iBasis s + 1] copy_basis_column ?s3 =
     Inr (?s3\<lparr>EigenR := (EigenR ?s3)\<lparr>colvec := take (iBasis s + 1) (R ?s3)
              @ drop (iBasis s + 1) (colvec (EigenR ?s3))\<rparr>\<rparr>)"
    using copy_basis_prefix [of n ?s3 "iBasis s + 1"] ra' d b by simp
  have fin: "(EigenR ?s3)\<lparr>colvec := take (iBasis s + 1) (R ?s3)
              @ drop (iBasis s + 1) (colvec (EigenR ?s3))\<rparr>
           = \<lparr>nrows = n, colvec = take (iBasis s + 1) ?R\<rparr>"
    using d by simp
  let ?s' = "s\<lparr>iBasis := iBasis s + 1, R := ?R,
              EigenR := \<lparr>nrows = n, colvec = take (iBasis s + 1) ?R\<rparr>\<rparr>"
  have a: "appendBasisVector lib mem s = Inr ?s'"
    using b inc dec l0 lk ex er g cp fin
    by (simp add: appendBasisVector_def Let_def)
  have "configured n ?s'"
    using c b ra' well_formed_take [OF ra'] by (simp add: configured_def)
  then show ?thesis using a g by blast
qed

lemma configured_window_copied:
  "configured n s \<Longrightarrow> configured n (s\<lparr>EigenX := window_matrix s\<rparr>)"
  using window_matrix_dims [of n s] by (simp add: configured_def)

lemma checkBasis_window_not_full:
  assumes c: "configured n s" and w: "iSample s + 1 < length (X s)"
  shows "checkBasis lib mem t s = Inr (False, s)"
proof -
  have "Index_inc (iSample s) = iSample s + 1"
    using c by (intro Index_inc_eq) (simp add: configured_def)
  then show ?thesis using w by (simp add: checkBasis_def)
qed

lemma checkBasis_basis_full:
  assumes c: "configured n s" and b: "length (R s) \<le> iBasis s"
  shows "checkBasis lib mem t s = Inr (False, s)"
  using b by (simp add: checkBasis_def)

lemma checkBasis_full_window:
  assumes c: "configured n s" and w: "iSample s + 1 = length (X s)"
    and b: "iBasis s < length (R s)"
  shows "checkBasis lib mem t s =
     and_then (Krylov_Criterion_Quotients lib (window_matrix s) (length (X s))) (\<lambda>q.
       if 0 < length q
       then if Krylov_criterion_fulfilled (q ! 0) t
         then and_then (appendBasisVector lib mem (s\<lparr>EigenX := window_matrix s\<rparr>))
                (\<lambda>s2. Inr (True, s2))
         else Inr (False, s\<lparr>EigenX := window_matrix s\<rparr>)
       else Inl OutOfRange)"
proof -
  have "Index_inc (iSample s) = iSample s + 1"
    using c by (intro Index_inc_eq) (simp add: configured_def)
  moreover have "0 < length (X s)" using c by (auto simp: configured_def)
  ultimately show ?thesis
    using w b copy_window_configured [OF c] by (simp add: checkBasis_def)
qed

lemma checkBasis_out_of_range:
  assumes c: "configured n s" and w: "iSample s + 1 = length (X s)"
    and b: "iBasis s < length (R s)" and k: "n < length (X s)"
  shows "checkBasis lib mem t s = Inl (DiagonalOutOfRange (max n 1))"
  unfolding checkBasis_full_window [OF c w b]
  using quotients_out_of_range [OF c k] by simp

lemma checkBasis_rejects:
  assumes c: "configured n s" and w: "iSample s + 1 = length (X s)"
    and b: "iBasis s < length (R s)" and k: "length (X s) \<le> n"
    and f: "\<not> Krylov_criterion_fulfilled (Krylov_quotient lib s 0) t"
  shows "checkBasis lib mem t s = Inr (False, s\<lparr>EigenX := window_matrix s\<rparr>)"
proof -
  obtain q where q: "Krylov_Criterion_Quotients lib (window_matrix s) (length (X s)) = Inr q"
    "length q = length (X s) - 1" "\<forall>i<length (X s) - 1. q ! i = Krylov_quotient lib s i"
    using quotients_in_range [OF c k] by blast
  have "2 \<le> length (X s)" using c by (simp add: configured_def)
  then have "0 < length q" "q ! 0 = Krylov_quotient lib s 0" using q by simp_all
  then show ?thesis
    unfolding checkBasis_full_window [OF c w b] using q(1) f by simp
qed

lemma checkBasis_accepts:
  assumes c: "configured n s" and w: "iSample s + 1 = length (X s)"
    and b: "iBasis s < length (R s)" and k: "length (X s) \<le> n"
    and f: "Krylov_criterion_fulfilled (Krylov_quotient lib s 0) t"
  shows "\<exists>s'. checkBasis lib mem t s = Inr (True, s') \<and>
           appendBasisVector lib mem (s\<lparr>EigenX := window_matrix s\<rparr>) = Inr s' \<and>
           iBasis s' = iBasis s + 1 \<and> configured n s'"
proof -
  obtain q where q: "Krylov_Criterion_Quotients lib (window_matrix s) (length (X s)) = Inr q"
    "length q = length (X s) - 1" "\<forall>i<length (X s) - 1. q ! i = Krylov_quotient lib s i"
    using quotients_in_range [OF c k] by blast
  have "2 \<le> length (X s)" using c by (simp add: configured_def)
  then have q0: "0 < length q" "q ! 0 = Krylov_quotient lib s 0" using q by simp_all
  obtain s' where s': "appendBasisVector lib mem (s\<lparr>EigenX := window_matrix s\<rparr>) = Inr s'"
    "iBasis s' = iBasis s + 1" "configured n s'"
    using appendBasisVector_configured [OF configured_window_copied [OF c], of lib mem] b
    by auto
  have "checkBasis lib mem t s = Inr (True, s')"
    unfolding checkBasis_full_window [OF c w b] using q(1) q0 f s'(1) by simp
  then show ?thesis using s' by blast
qed

text \<open>checkBasis keeps the object configured.\<close>

lemma checkBasis_keeps_configured:
  assumes c: "configured n s" and r: "checkBasis lib mem t s = Inr (b, s')"
  shows "configured n s'"
proof (cases "iSample s + 1 < length (X s)")
  case True
  then show ?thesis using checkBasis_window_not_full [OF c True] r c by simp
next
  case False
  then have w: "iSample s + 1 = length (X s)" using c by (simp add: configured_def)
  show ?thesis
  proof (cases "iBasis s < length (R s)")
    case False
    then show ?thesis using checkBasis_basis_full [OF c, of lib mem t] r c by simp
  next
    case b: True
    show ?thesis
    proof (cases "length (X s) \<le> n")
      case False
      then show ?thesis using checkBasis_out_of_range [OF c w b, of lib mem t] r by simp
    next
      case k: True
      show ?thesis
      proof (cases "Krylov_criterion_fulfilled (Krylov_quotient lib s 0) t")
        case True
        then show ?thesis using checkBasis_accepts [OF c w b k True, of mem] r by auto
      next
        case False
        then show ?thesis
          using checkBasis_rejects [OF c w b k False, of mem] r configured_window_copied [OF c]
          by simp
      qed
    qed
  qed
qed

lemma feed_keeps_basis:
  assumes "configured n s" and "iBasis s = 0" and "list_all (\<lambda>w. length w = n) ws"
    and "feed ws s = Inr s'"
  shows "R s' = R s"
  using assms
proof (induction ws arbitrary: s)
  case Nil
  then show ?case by simp
next
  case (Cons w ws)
  let ?s0 = "s\<lparr>work := w\<rparr>"
  have w: "length w = n" and ws: "list_all (\<lambda>w. length w = n) ws"
    using Cons.prems by simp_all
  have st: "store_FPresult w s = Inr ?s0" and c0: "configured n ?s0"
    using store_configured [OF Cons.prems(1) w] by simp_all
  have b0: "iBasis ?s0 = 0" using Cons.prems by simp
  obtain s1 where r: "compute ?s0 = Inr (w, s1)"
    using compute_empty_basis_aux [OF c0 b0] by auto
  note f = compute_frame [OF r c0]
  have c1: "configured n s1" using f by blast
  have "iBasis s1 = iBasis ?s0" using f by blast
  then have b1: "iBasis s1 = 0" using b0 by simp
  have "R s1 = R ?s0" using f by blast
  then have r1: "R s1 = R s" by simp
  have "feed ws s1 = Inr s'" using Cons.prems(4) st r by simp
  then show ?case using Cons.IH [OF c1 b1 ws] r1 by simp
qed

lemma feed_fills_window:
  assumes c: "configured n s" and b: "iBasis s = 0" and l: "list_all (\<lambda>w. length w = n) ws"
    and k: "length (X s) \<le> iSample s + 1 + length ws"
  shows "\<exists>s'. feed ws s = Inr s' \<and> configured n s' \<and> iBasis s' = 0 \<and> R s' = R s \<and>
           iSample s' + 1 = length (X s') \<and>
           X s' = most_recent (length (X s)) (window s @ deltas (work2 s) ws)"
proof -
  obtain s' where f: "feed ws s = Inr s'" "configured n s'" "iBasis s' = 0"
      "length (X s') = length (X s)"
      "window s' = most_recent (length (X s)) (window s @ deltas (work2 s) ws)"
    using feed_window [OF c b l] by blast
  have "iSample s < length (X s)" using c by (simp add: configured_def)
  then have "length (window s) = iSample s + 1" by (simp add: window_def)
  then have "length (window s') = length (X s)" using f(5) k by simp
  then have i: "length (X s') \<le> iSample s' + 1"
    using f(4) by (simp add: window_def min_def split: if_splits)
  have "iSample s' < length (X s')" using f(2) by (simp add: configured_def)
  then have e: "iSample s' + 1 = length (X s')" using i by simp
  then have "window s' = X s'" by (simp add: window_def)
  then show ?thesis
    using f e feed_keeps_basis [OF c b l f(1)] by auto
qed

text \<open>The object after \<^verbatim>\<open>resize(2, 1, npt, 1)\<close> and two iterates, on zeroed storage.\<close>

lemma two_iterates:
  assumes "length w1 = npt" and "length w2 = npt"
  shows "\<exists>s0 s. resize (\<lambda>a i. 0) 2 1 npt 1 0 default_object = Inr s0 \<and>
     feed [w1, w2] s0 = Inr s \<and> configured npt s \<and> iBasis s = 0 \<and> length (R s) = 1 \<and>
     iSample s + 1 = length (X s) \<and> X s = [w1, map2 (-) w2 w1]"
proof -
  obtain s0 :: "real CNewtonUpdateOnSubspace"
    where s0: "resize (\<lambda>a i. 0) 2 1 npt 1 0 default_object = Inr s0"
    and w: "work2 s0 = replicate npt 0" and x: "X s0 ! 0 = replicate npt 0"
    using resize_result [of 0 npt 2 1 "\<lambda>a i. 0 :: real" 1 default_object]
    by (auto simp: fresh_def zero_vector_def map_const_upt)
  have c: "configured npt s0" and b: "iBasis s0 = 0" and l: "length (X s0) = 2"
    and i: "iSample s0 = 0" and r: "length (R s0) = 1"
    using resize_configured [OF s0] by simp_all
  have win: "window s0 = [replicate npt 0]"
    using l i x by (cases "X s0") (simp_all add: window_def)
  have d: "map2 (-) w1 (replicate npt 0) = w1"
    using assms(1) by (intro nth_equalityI) simp_all
  obtain s where s: "feed [w1, w2] s0 = Inr s" "configured npt s" "iBasis s = 0" "R s = R s0"
     "iSample s + 1 = length (X s)"
     "X s = most_recent (length (X s0)) (window s0 @ deltas (work2 s0) [w1, w2])"
    using feed_fills_window [OF c b, of "[w1, w2]"] assms l i by auto
  have "X s = [w1, map2 (-) w2 w1]"
    using s(6) l win w d by (simp add: most_recent_def)
  then show ?thesis using s0 s r by auto
qed

lemma window_matrix_colvec: "configured n s \<Longrightarrow> colvec (window_matrix s) = X s"
  using configured_map_take [of n s] by (simp add: window_matrix_def)

lemma Eigen_exact_diagonal:
  "householderQR_diagonal Eigen_exact m i = Finite (fst (snd (householder_steps (colvec m) ! i)))"
  by (simp add: Eigen_exact_def)

lemmas householder_eval =
  makeHouseholder_def applyHouseholderOnTheLeft_def dot_def tol_def Let_def


lemma zero_second_entry_quotient:
  "householderQR_diagonal lib (window_matrix s) (i + 1) = Finite 0 \<Longrightarrow>
     Krylov_quotient lib s i = Finite 0"
  by (simp add: Krylov_quotient_def)


lemma dependent_window:
  "\<exists>s0 s. resize (\<lambda>a i. 0) 2 1 2 1 0 default_object = Inr s0 \<and>
      feed [[1, 0], [3, 0]] s0 = Inr s \<and> configured 2 s \<and> iBasis s = 0 \<and>
      iBasis s < length (R s) \<and> iSample s + 1 = length (X s) \<and> length (X s) \<le> 2 \<and>
      X s = [[1, 0], [2, 0]] \<and>
      householderQR_diagonal Eigen_exact (window_matrix s) 1 = Finite 0"
proof -
  obtain s0 s where a: "resize (\<lambda>a i. 0) 2 1 2 1 0 default_object = Inr s0"
    "feed [[1, 0], [3, 0]] s0 = Inr s" "configured 2 s" "iBasis s = 0" "length (R s) = 1"
    "iSample s + 1 = length (X s)" "X s = [[1, 0], map2 (-) [3, 0] [1, 0]]"
    using two_iterates [of "[1, 0]" 2 "[3, 0]"] by auto
  have x: "X s = [[1, 0], [2, 0]]" using a(7) by simp
  have "householderQR_diagonal Eigen_exact (window_matrix s) 1 = Finite 0"
    using window_matrix_colvec [OF a(3)] x
    by (simp add: Eigen_exact_diagonal householder_eval)
  then show ?thesis using a x by auto
qed


lemma independent_window:
  "\<exists>s0 s. resize (\<lambda>a i. 0) 2 1 2 1 0 default_object = Inr s0 \<and> iBasis s0 = 0 \<and>
      length (R s0) = 1 \<and>
      feed [[1, 0], [1, 1 / 100]] s0 = Inr s \<and> configured 2 s \<and> iBasis s = 0 \<and>
      length (R s) = 1 \<and> iSample s + 1 = length (X s) \<and> length (X s) \<le> 2 \<and>
      X s = [[1, 0], [0, 1 / 100]] \<and> Krylov_quotient Eigen_exact s 0 = Finite 100"
proof -
  obtain s0 s where a: "resize (\<lambda>a i. 0) 2 1 2 1 0 default_object = Inr s0"
    "feed [[1, 0], [1, 1 / 100]] s0 = Inr s" "configured 2 s" "iBasis s = 0" "length (R s) = 1"
    "iSample s + 1 = length (X s)" "X s = [[1, 0], map2 (-) [1, 1 / 100] [1, 0]]"
    using two_iterates [of "[1, 0]" 2 "[1, 1 / 100]"] by auto
  have x: "X s = [[1, 0], [0, 1 / 100]]" using a(7) by simp
  have q: "Krylov_quotient Eigen_exact s 0 = Finite 100"
    using window_matrix_colvec [OF a(3)] x
    by (simp add: Krylov_quotient_def Eigen_exact_diagonal householder_eval)
  have "iBasis s0 = 0" "length (R s0) = 1"
    using resize_configured [OF a(1)] by simp_all
  then show ?thesis using a x q by auto
qed

lemma run_append:
  "run lib tape mem (cs @ ds) s = and_then (run lib tape mem cs s) (run lib tape mem ds)"
proof (induction cs arbitrary: s)
  case Nil
  show ?case by simp
next
  case (Cons c cs)
  show ?case by (cases "perform lib tape mem c s") (simp_all add: Cons.IH)
qed

lemma run_feed:
  "run lib tape mem (concat (map (\<lambda>w. [Store w, Compute]) ws)) s = feed ws s"
proof (induction ws arbitrary: s)
  case Nil
  show ?case by simp
next
  case (Cons w ws)
  show ?case
  proof (cases "store_FPresult w s")
    case (Inl e)
    then show ?thesis by (simp add: perform_def)
  next
    case (Inr s1)
    then show ?thesis
      by (cases "compute s1") (simp_all add: perform_def Cons.IH)
  qed
qed


section \<open>What the operations do to the basis count\<close>

lemma and_then_InrD: "and_then m f = Inr y \<Longrightarrow> \<exists>x. m = Inr x \<and> f x = Inr y"
  by (cases m) simp_all

lemma remove_projection_basis:
  "remove_projection s = Inr s1 \<Longrightarrow> iBasis s1 = iBasis s \<and> R s1 = R s"
  by (auto simp: remove_projection_def projectOntoSubspace_def and_then_def Let_def
      split: if_splits sum.splits)

lemma store_delta_basis:
  "store_delta s = Inr s1 \<Longrightarrow> iBasis s1 = iBasis s \<and> R s1 = R s"
  by (auto simp: store_delta_def Let_def split: if_splits)

lemma recombine_basis:
  "recombine s = Inr s1 \<Longrightarrow> iBasis s1 = iBasis s \<and> R s1 = R s"
  by (auto simp: recombine_def updateProjectedSolution_def and_then_def Let_def
      split: if_splits sum.splits)

lemma compute_basis:
  assumes "compute s = Inr (res, s')"
  shows "iBasis s' = iBasis s \<and> R s' = R s"
proof -
  obtain s1 where r1: "remove_projection s = Inr s1"
    using assms by (cases "remove_projection s") (simp_all add: compute_def)
  obtain s2 where r2: "store_delta s1 = Inr s2"
    using assms r1 by (cases "store_delta s1") (simp_all add: compute_def)
  have r3: "recombine s2 = Inr s'"
    using assms r1 r2 by (cases "recombine s2") (simp_all add: compute_def)
  show ?thesis
    using remove_projection_basis [OF r1] store_delta_basis [OF r2] recombine_basis [OF r3]
    by simp
qed

lemma copy_window_basis:
  assumes "copy_window s = Inr s1"
  shows "iBasis s1 = iBasis s \<and> R s1 = R s \<and> X s1 = X s \<and> iSample s1 = iSample s"
proof -
  let ?P = "\<lambda>t. iBasis t = iBasis s \<and> R t = R s \<and> X t = X s \<and> iSample t = iSample s"
  have "\<forall>i t t'. copy_window_column i t = Inr t' \<longrightarrow> ?P t \<longrightarrow> ?P t'"
    by (auto simp: copy_window_column_def split: if_splits)
  then show ?thesis
    using for_each_invariant [of "[0..<length (X s)]" copy_window_column s s1 ?P] assms
    by (simp add: copy_window_def)
qed

lemma appendBasisVector_basis:
  assumes "appendBasisVector lib mem s = Inr s'"
  shows "iBasis s' = Index_inc (iBasis s) \<and> length (R s') = length (R s)"
proof -
  let ?P = "\<lambda>t. iBasis t = Index_inc (iBasis s) \<and> length (R t) = length (R s)"
  have step: "\<forall>i t t'. copy_basis_column i t = Inr t' \<longrightarrow> ?P t \<longrightarrow> ?P t'"
    by (auto simp: copy_basis_column_def split: if_splits)
  obtain x where f: "for_each [0..<Index_inc (iBasis s)] copy_basis_column
       (s\<lparr>iBasis := Index_inc (iBasis s),
          R := (R s)[Index_dec (Index_inc (iBasis s)) :=
                 map (normalized lib x) [0..<length (R s ! 0)] @
                 drop (length (R s ! 0)) (R s ! Index_dec (Index_inc (iBasis s)))],
          EigenR := Eigen_resize mem 4 (EigenR s) (nrows (EigenR s)) (Index_inc (iBasis s))\<rparr>)
       = Inr s'"
    using assms unfolding appendBasisVector_def Let_def
    by (auto split: if_splits dest!: and_then_InrD)
  show ?thesis
    using for_each_invariant [OF f step] by simp
qed

lemma checkBasis_basis:
  assumes r: "checkBasis lib mem t s = Inr (grew, s')"
  shows "length (R s') = length (R s) \<and>
     (if grew then iBasis s' = Index_inc (iBasis s) \<and> iBasis s < length (R s) \<and>
                   \<not> Index_inc (iSample s) < length (X s)
      else iBasis s' = iBasis s)"
proof (cases "Index_inc (iSample s) < length (X s)")
  case True
  then show ?thesis using r by (simp add: checkBasis_def)
next
  case full: False
  show ?thesis
  proof (cases "iBasis s < length (R s)")
    case False
    then show ?thesis using r full by (simp add: checkBasis_def)
  next
    case True
    obtain s1 where c: "copy_window s = Inr s1"
      using r full True by (cases "copy_window s") (simp_all add: checkBasis_def)
    note f = copy_window_basis [OF c]
    show ?thesis
    proof (cases grew)
      case True
      then obtain s2 where a: "appendBasisVector lib mem s1 = Inr s2" and e: "s' = s2"
        using r full \<open>iBasis s < length (R s)\<close> c
        by (auto simp: checkBasis_def and_then_def split: if_splits sum.splits)
      show ?thesis
        using appendBasisVector_basis [OF a] e f True full \<open>iBasis s < length (R s)\<close> by simp
    next
      case False
      then have "s' = s1"
        using r full \<open>iBasis s < length (R s)\<close> c
        by (auto simp: checkBasis_def and_then_def split: if_splits sum.splits)
      then show ?thesis using f False by simp
    qed
  qed
qed

lemma projected_entry_basis:
  "projected_entry j i t = Inr t' \<Longrightarrow> iBasis t' = iBasis t \<and> R t' = R t"
  by (auto simp: projected_entry_def split: if_splits)

lemma jacobian_column_basis:
  assumes "jacobian_column tape inp out j t = Inr t'"
  shows "iBasis t' = iBasis t \<and> R t' = R t"
proof -
  let ?P = "\<lambda>u. iBasis u = iBasis t \<and> R u = R t"
  have step: "\<forall>i u u'. projected_entry j i u = Inr u' \<longrightarrow> ?P u \<longrightarrow> ?P u'"
    using projected_entry_basis by simp
  obtain t1 where t1: "for_each [0..<iBasis t1] (projected_entry j) t1 = Inr t'" "?P t1"
    using assms by (auto simp: jacobian_column_def Let_def split: if_splits)
  show ?thesis using for_each_invariant [OF t1(1) step t1(2)] .
qed

lemma computeProjectedJacobian_basis:
  assumes "computeProjectedJacobian lib tape mem z inp out s = Inr s'"
  shows "iBasis s' = iBasis s \<and> R s' = R s"
proof -
  let ?P = "\<lambda>u. iBasis u = iBasis s \<and> R u = R s"
  have step: "\<forall>j u u'. jacobian_column tape inp out j u = Inr u' \<longrightarrow> ?P u \<longrightarrow> ?P u'"
    using jacobian_column_basis by simp
  obtain s1 s2 where s: "for_each [0..<iBasis s1] (jacobian_column tape inp out) s1 = Inr s2"
      "?P s1" "iBasis s' = iBasis s2 \<and> R s' = R s2"
    using assms
    by (auto simp: computeProjectedJacobian_def Let_def and_then_def split: sum.splits)
  show ?thesis using for_each_invariant [OF s(1) step s(2)] s(3) by simp
qed

lemma perform_basis:
  assumes r: "perform lib tape mem c s = Inr s'" and b: "iBasis s \<le> length (R s)"
    and m: "length (R s) < 2 ^ 64"
  shows "length (R s') = length (R s) \<and> iBasis s \<le> iBasis s' \<and> iBasis s' \<le> length (R s') \<and>
         iBasis s' \<le> iBasis s + (if is_CheckBasis c then 1 else 0)"
proof (cases c)
  case (Store w)
  then show ?thesis using r b by (auto simp: perform_def store_FPresult_def split: if_splits)
next
  case Compute
  then have "and_then (compute s) (\<lambda>r. Inr (snd r)) = Inr s'"
    using r by (simp add: perform_def)
  then obtain x where x: "compute s = Inr x" "snd x = s'"
    by (auto dest!: and_then_InrD)
  obtain res where "compute s = Inr (res, s')"
    using x by (cases x) simp
  then have "iBasis s' = iBasis s \<and> R s' = R s" by (rule compute_basis)
  then show ?thesis using b Compute by simp
next
  case (CheckBasis t)
  then have "and_then (checkBasis lib mem t s) (\<lambda>r. Inr (snd r)) = Inr s'"
    using r by (simp add: perform_def)
  then obtain x where x: "checkBasis lib mem t s = Inr x" "snd x = s'"
    by (auto dest!: and_then_InrD)
  obtain grew where g: "checkBasis lib mem t s = Inr (grew, s')"
    using x by (cases x) simp
  note f = checkBasis_basis [OF g]
  show ?thesis
  proof (cases grew)
    case True
    then have l: "iBasis s < length (R s)" and i: "iBasis s' = Index_inc (iBasis s)"
      using f by simp_all
    have "Index_inc (iBasis s) = iBasis s + 1"
      using l m by (intro Index_inc_eq) simp
    then show ?thesis using f l i CheckBasis by simp
  next
    case False
    then show ?thesis using f b CheckBasis by simp
  qed
next
  case (ComputeProjectedJacobian inp out)
  then have "computeProjectedJacobian lib tape mem 0 inp out s = Inr s'"
    using r by (simp add: perform_def)
  then show ?thesis using computeProjectedJacobian_basis b ComputeProjectedJacobian by simp
qed

lemma run_basis:
  assumes "run lib tape mem calls s = Inr s'" and "iBasis s \<le> length (R s)"
    and "length (R s) < 2 ^ 64"
  shows "length (R s') = length (R s) \<and> iBasis s \<le> iBasis s' \<and> iBasis s' \<le> length (R s') \<and>
         iBasis s' \<le> iBasis s + length (filter is_CheckBasis calls)"
  using assms
proof (induction calls arbitrary: s)
  case Nil
  then show ?case by simp
next
  case (Cons c cs)
  obtain s1 where p: "perform lib tape mem c s = Inr s1" and r: "run lib tape mem cs s1 = Inr s'"
    using Cons.prems(1) by (cases "perform lib tape mem c s") simp_all
  note f = perform_basis [OF p Cons.prems(2,3)]
  have b1: "iBasis s1 \<le> length (R s1)" and m1: "length (R s1) < 2 ^ 64"
    using f Cons.prems(3) by simp_all
  show ?case
    using Cons.IH [OF r b1 m1] f by (auto split: if_splits)
qed

section \<open>The diagonal of the factor and the Krylov criterion\<close>

text \<open>
  Claim C10.  When the window is full and a basis slot is free, \<^verbatim>\<open>checkBasis\<close> reads the
  diagonal entries \<open>Rdiag(i + 1)\<close> for every \<open>i\<close> up to \<open>nsample - 2\<close>, and the diagonal of
  the factor of the \<open>npt * nvar\<close> by \<open>nsample\<close> window has \<open>min (npt * nvar) nsample\<close> entries.
  With \<open>n = npt * nvar\<close>: when \<open>n < nsample\<close> the call reads past the end of the diagonal,
  at index \<open>n\<close> (at index 1 when \<open>n = 0\<close>, where the first read is \<open>Rdiag(1)\<close>); when
  \<open>n \<ge> nsample\<close> every diagonal access is in range, the quotients are computed and the call
  returns.
\<close>

theorem diagonal_reads_need_enough_rows:
  assumes c: "configured n s" and w: "iSample s + 1 = length (X s)"
    and b: "iBasis s < length (R s)"
  shows "(n < length (X s) \<longrightarrow>
            checkBasis lib mem t s = Inl (DiagonalOutOfRange (max n 1))) \<and>
         (length (X s) \<le> n \<longrightarrow>
            (\<exists>q grew s'. Krylov_Criterion_Quotients lib (window_matrix s) (length (X s)) = Inr q \<and>
               checkBasis lib mem t s = Inr (grew, s')))"
proof (cases "n < length (X s)")
  case True
  then show ?thesis using checkBasis_out_of_range [OF c w b True] by simp
next
  case False
  then have k: "length (X s) \<le> n" by simp
  obtain q where q: "Krylov_Criterion_Quotients lib (window_matrix s) (length (X s)) = Inr q"
    using quotients_in_range [OF c k] by blast
  have "\<exists>grew s'. checkBasis lib mem t s = Inr (grew, s')"
  proof (cases "Krylov_criterion_fulfilled (Krylov_quotient lib s 0) t")
    case True
    then show ?thesis using checkBasis_accepts [OF c w b k True] by blast
  next
    case False
    then show ?thesis using checkBasis_rejects [OF c w b k False] by blast
  qed
  then show ?thesis using k q by auto
qed

theorem diagonal_reads_need_enough_rows_witness:
  "(\<exists>s0 s. resize (\<lambda>a i. 0) 2 1 1 1 0 default_object = Inr s0 \<and>
       feed [[1], [3]] s0 = Inr s \<and>
       checkBasis Eigen_exact (\<lambda>a i. 0) (Finite 50) s = Inl (DiagonalOutOfRange 1)) \<and>
   (\<exists>s0 s grew s'. resize (\<lambda>a i. 0) 2 1 2 1 0 default_object = Inr s0 \<and>
       feed [[1, 0], [3, 1]] s0 = Inr s \<and>
       checkBasis Eigen_exact (\<lambda>a i. 0) (Finite 50) s = Inr (grew, s'))"
proof -
  obtain s0 s where a: "resize (\<lambda>a i. 0) 2 1 1 1 0 default_object = Inr s0"
    "feed [[1], [3]] s0 = Inr s" "configured 1 s" "iBasis s = 0" "length (R s) = 1"
    "iSample s + 1 = length (X s)" "X s = [[1], map2 (-) [3] [1]]"
    using two_iterates [of "[1]" 1 "[3]"] by auto
  have "checkBasis Eigen_exact (\<lambda>a i. 0) (Finite 50) s = Inl (DiagonalOutOfRange 1)"
    using diagonal_reads_need_enough_rows [OF a(3) a(6), of Eigen_exact "\<lambda>a i. 0" "Finite 50"]
      a(4,5,7) by simp
  then have one: "\<exists>s0 s. resize (\<lambda>a i. 0) 2 1 1 1 0 default_object = Inr s0 \<and>
       feed [[1], [3]] s0 = Inr s \<and>
       checkBasis Eigen_exact (\<lambda>a i. 0) (Finite 50) s = Inl (DiagonalOutOfRange 1)"
    using a(1,2) by blast
  obtain t0 t where e: "resize (\<lambda>a i. 0) 2 1 2 1 0 default_object = Inr t0"
    "feed [[1, 0], [3, 1]] t0 = Inr t" "configured 2 t" "iBasis t = 0" "length (R t) = 1"
    "iSample t + 1 = length (X t)" "X t = [[1, 0], map2 (-) [3, 1] [1, 0]]"
    using two_iterates [of "[1, 0]" 2 "[3, 1]"] by auto
  have "\<exists>grew s'. checkBasis Eigen_exact (\<lambda>a i. 0) (Finite 50) t = Inr (grew, s')"
    using diagonal_reads_need_enough_rows [OF e(3) e(6), of Eigen_exact "\<lambda>a i. 0" "Finite 50"]
      e(4,5,7) by auto
  then have "\<exists>s0 s grew s'. resize (\<lambda>a i. 0) 2 1 2 1 0 default_object = Inr s0 \<and>
       feed [[1, 0], [3, 1]] s0 = Inr s \<and>
       checkBasis Eigen_exact (\<lambda>a i. 0) (Finite 50) s = Inr (grew, s')"
    using e(1,2) by blast
  then show ?thesis using one by blast
qed

text \<open>
  Claim C2, as stated, at its own input: with \<open>nsample = 2\<close>, \<open>nbasis = 1\<close>, one grid point and
  one variable, and the deltas 1 and 0.01 in the window, the window matrix has one row and two
  columns.  Its factor has a single diagonal entry, so no quotient of the first two entries
  exists: for both thresholds \<^verbatim>\<open>checkBasis\<close> reads \<open>Rdiag(1)\<close> past the end of the diagonal,
  and neither returns true nor raises the count to 1.
\<close>

theorem one_point_window_has_no_second_diagonal_entry:
  "\<exists>s0 s. resize (\<lambda>a i. 0) 2 1 1 1 0 default_object = Inr s0 \<and>
      feed [[1], [101 / 100]] s0 = Inr s \<and> X s = [[1], [1 / 100]] \<and> iBasis s = 0 \<and>
      checkBasis Eigen_exact (\<lambda>a i. 0) (Finite 50) s = Inl (DiagonalOutOfRange 1) \<and>
      checkBasis Eigen_exact (\<lambda>a i. 0) (Finite 500) s = Inl (DiagonalOutOfRange 1)"
proof -
  obtain s0 s where a: "resize (\<lambda>a i. 0) 2 1 1 1 0 default_object = Inr s0"
    "feed [[1], [101 / 100]] s0 = Inr s" "configured 1 s" "iBasis s = 0" "length (R s) = 1"
    "iSample s + 1 = length (X s)" "X s = [[1], map2 (-) [101 / 100] [1]]"
    using two_iterates [of "[1]" 1 "[101 / 100]"] by auto
  have b: "iBasis s < length (R s)" and k: "1 < length (X s)" using a by simp_all
  have "checkBasis Eigen_exact (\<lambda>a i. 0) t s = Inl (DiagonalOutOfRange 1)" for t
    using checkBasis_out_of_range [OF a(3) a(6) b k] by simp
  then show ?thesis using a by auto
qed

text \<open>
  Claim C2, amended.  With \<open>nsample = 2\<close>, \<open>nbasis = 1\<close>, one variable and two grid points,
  once the window holds the deltas (1, 0) and (0, 0.01), \<^verbatim>\<open>checkBasis\<close> copies the window
  into \<open>EigenX\<close>, the diagonal of its triangular factor is (1, 0.01), and the quotients that
  the loop of \<^verbatim>\<open>checkBasis\<close> computes are the single quotient 100, the ratio of the two
  diagonal entries: \<^verbatim>\<open>checkBasis\<close> with threshold 50 returns true and raises the active
  basis count to 1, and with threshold 500 it returns false and leaves the count at 0.
\<close>

theorem two_point_window_quotient_100:
  "\<exists>s0 s s1. resize (\<lambda>a i. 0) 2 1 2 1 0 default_object = Inr s0 \<and>
      feed [[1, 0], [1, 1 / 100]] s0 = Inr s \<and> X s = [[1, 0], [0, 1 / 100]] \<and>
      iBasis s = 0 \<and>
      copy_window s = Inr s1 \<and> colvec (EigenX s1) = [[1, 0], [0, 1 / 100]] \<and>
      Rdiag Eigen_exact (EigenX s1) 0 = Inr (Finite 1) \<and>
      Rdiag Eigen_exact (EigenX s1) 1 = Inr (Finite (1 / 100)) \<and>
      Krylov_Criterion_Quotients Eigen_exact (EigenX s1) (length (X s1)) = Inr [Finite 100] \<and>
      Krylov_quotient Eigen_exact s 0 = Finite 100 \<and>
      (\<exists>s'. checkBasis Eigen_exact (\<lambda>a i. 0) (Finite 50) s = Inr (True, s') \<and> iBasis s' = 1) \<and>
      (\<exists>s'. checkBasis Eigen_exact (\<lambda>a i. 0) (Finite 500) s = Inr (False, s') \<and> iBasis s' = 0)"
proof -
  obtain s0 s where a: "resize (\<lambda>a i. 0) 2 1 2 1 0 default_object = Inr s0"
      "feed [[1, 0], [1, 1 / 100]] s0 = Inr s" "configured 2 s"
      "iBasis s = 0" "length (R s) = 1" "iSample s + 1 = length (X s)"
      "length (X s) \<le> 2" "X s = [[1, 0], [0, 1 / 100]]"
      "Krylov_quotient Eigen_exact s 0 = Finite 100"
    using independent_window by blast
  let ?s1 = "s\<lparr>EigenX := window_matrix s\<rparr>"
  have cw: "copy_window s = Inr ?s1" by (rule copy_window_configured [OF a(3)])
  have cv: "colvec (EigenX ?s1) = [[1, 0], [0, 1 / 100]]"
    using window_matrix_colvec [OF a(3)] a(8) by simp
  have dims: "nrows (window_matrix s) = 2" "ncols (window_matrix s) = 2"
    using window_matrix_dims [OF a(3)] a(8) by simp_all
  have d0: "Rdiag Eigen_exact (EigenX ?s1) 0 = Inr (Finite 1)"
    using cv dims by (simp add: Rdiag_def Eigen_exact_diagonal householder_eval)
  have d1: "Rdiag Eigen_exact (EigenX ?s1) 1 = Inr (Finite (1 / 100))"
    using cv dims by (simp add: Rdiag_def Eigen_exact_diagonal householder_eval)
  have q: "Krylov_Criterion_Quotients Eigen_exact (EigenX ?s1) (length (X ?s1)) = Inr [Finite 100]"
    using d0 d1 a(8) by (simp add: Krylov_Criterion_Quotients_def)
  have b: "iBasis s < length (R s)" using a(4,5) by simp
  have y: "Krylov_criterion_fulfilled (Krylov_quotient Eigen_exact s 0) (Finite 50)"
    and n: "\<not> Krylov_criterion_fulfilled (Krylov_quotient Eigen_exact s 0) (Finite 500)"
    unfolding a(9) by (simp_all add: Krylov_criterion_fulfilled_def)
  have "\<exists>s'. checkBasis Eigen_exact (\<lambda>a i. 0) (Finite 50) s = Inr (True, s') \<and> iBasis s' = 1"
    using checkBasis_accepts [OF a(3) a(6) b a(7) y, of "\<lambda>a i. 0"] a(4) by auto
  moreover have "\<exists>s'. checkBasis Eigen_exact (\<lambda>a i. 0) (Finite 500) s = Inr (False, s') \<and> iBasis s' = 0"
    using checkBasis_rejects [OF a(3) a(6) b a(7) n, of "\<lambda>a i. 0"] a(4) by simp
  ultimately show ?thesis using a(1,2,4,8,9) cw cv d0 d1 q by blast
qed

text \<open>
  Claim C6, amended.  In \<^verbatim>\<open>checkBasis\<close> with a full window, a free basis slot and at least
  \<open>nsample\<close> solution entries, the quotients are computed without failure; the quotient of
  every slot whose second diagonal entry is exactly zero is left at zero; a first quotient
  that is not a number is rejected whatever the threshold.  For every threshold that is not
  negative, a zero second diagonal entry results in no growth: the call returns false and the
  active count is unchanged.  For a negative threshold the zero quotient passes the test
  \<open>abs(q) > threshold\<close> and the basis grows by one.
\<close>

theorem degenerate_ratio_gives_no_growth:
  assumes c: "configured n s" and w: "iSample s + 1 = length (X s)"
    and b: "iBasis s < length (R s)" and k: "length (X s) \<le> n"
  shows "(\<exists>q. Krylov_Criterion_Quotients lib (window_matrix s) (length (X s)) = Inr q \<and>
            length q = length (X s) - 1 \<and> q ! 0 = Krylov_quotient lib s 0 \<and>
            (\<forall>i<length (X s) - 1.
               householderQR_diagonal lib (window_matrix s) (i + 1) = Finite 0
                 \<longrightarrow> q ! i = Finite 0)) \<and>
         (householderQR_diagonal lib (window_matrix s) 1 = Finite 0 \<and> \<not> dbl_gt (Finite 0) t
            \<longrightarrow> (\<exists>s'. checkBasis lib mem t s = Inr (False, s') \<and> iBasis s' = iBasis s)) \<and>
         (Krylov_quotient lib s 0 = NaN
            \<longrightarrow> (\<exists>s'. checkBasis lib mem t s = Inr (False, s') \<and> iBasis s' = iBasis s)) \<and>
         (householderQR_diagonal lib (window_matrix s) 1 = Finite 0 \<and> dbl_gt (Finite 0) t
            \<longrightarrow> (\<exists>s'. checkBasis lib mem t s = Inr (True, s') \<and> iBasis s' = iBasis s + 1))"
proof -
  obtain q where q: "Krylov_Criterion_Quotients lib (window_matrix s) (length (X s)) = Inr q"
    "length q = length (X s) - 1" "\<forall>i<length (X s) - 1. q ! i = Krylov_quotient lib s i"
    using quotients_in_range [OF c k] by blast
  have "2 \<le> length (X s)" using c by (simp add: configured_def)
  then have "q ! 0 = Krylov_quotient lib s 0" using q(3) by simp
  then have one: "\<exists>q. Krylov_Criterion_Quotients lib (window_matrix s) (length (X s)) = Inr q \<and>
            length q = length (X s) - 1 \<and> q ! 0 = Krylov_quotient lib s 0 \<and>
            (\<forall>i<length (X s) - 1.
               householderQR_diagonal lib (window_matrix s) (i + 1) = Finite 0
                 \<longrightarrow> q ! i = Finite 0)"
    using q zero_second_entry_quotient [of lib s] by auto
  have two: "\<exists>s'. checkBasis lib mem t s = Inr (False, s') \<and> iBasis s' = iBasis s"
    if z: "householderQR_diagonal lib (window_matrix s) 1 = Finite 0" and t: "\<not> dbl_gt (Finite 0) t"
  proof -
    have "Krylov_quotient lib s 0 = Finite 0"
      using z zero_second_entry_quotient [of lib s 0] by simp
    then have "\<not> Krylov_criterion_fulfilled (Krylov_quotient lib s 0) t"
      using t by (simp add: Krylov_criterion_fulfilled_def)
    then show ?thesis using checkBasis_rejects [OF c w b k, of lib t mem] by simp
  qed
  have three: "\<exists>s'. checkBasis lib mem t s = Inr (False, s') \<and> iBasis s' = iBasis s"
    if z: "Krylov_quotient lib s 0 = NaN"
  proof -
    have "\<not> Krylov_criterion_fulfilled (Krylov_quotient lib s 0) t"
      using z by (simp add: Krylov_criterion_fulfilled_def)
    then show ?thesis using checkBasis_rejects [OF c w b k, of lib t mem] by simp
  qed
  have four: "\<exists>s'. checkBasis lib mem t s = Inr (True, s') \<and> iBasis s' = iBasis s + 1"
    if z: "householderQR_diagonal lib (window_matrix s) 1 = Finite 0" and t: "dbl_gt (Finite 0) t"
  proof -
    have "Krylov_quotient lib s 0 = Finite 0"
      using z zero_second_entry_quotient [of lib s 0] by simp
    then have "Krylov_criterion_fulfilled (Krylov_quotient lib s 0) t"
      using t by (simp add: Krylov_criterion_fulfilled_def)
    then show ?thesis using checkBasis_accepts [OF c w b k, of lib t mem] by blast
  qed
  show ?thesis using one two three four by blast
qed

text \<open>
  Claim C6, as stated, fails for a negative threshold: the window (1, 0), (2, 0) has the
  diagonal (1, 0), the first quotient stays at zero, and with the threshold \<open>-1\<close> the call
  returns true and the count goes from 0 to 1.
\<close>

theorem zero_ratio_passes_negative_threshold:
  "\<exists>s0 s s'. resize (\<lambda>a i. 0) 2 1 2 1 0 default_object = Inr s0 \<and>
      feed [[1, 0], [3, 0]] s0 = Inr s \<and> X s = [[1, 0], [2, 0]] \<and> iBasis s = 0 \<and>
      householderQR_diagonal Eigen_exact (window_matrix s) 1 = Finite 0 \<and>
      checkBasis Eigen_exact (\<lambda>a i. 0) (Finite (- 1)) s = Inr (True, s') \<and> iBasis s' = 1"
proof -
  obtain s0 s where a: "resize (\<lambda>a i. 0) 2 1 2 1 0 default_object = Inr s0"
      "feed [[1, 0], [3, 0]] s0 = Inr s" "configured 2 s" "iBasis s = 0"
      "iBasis s < length (R s)" "iSample s + 1 = length (X s)" "length (X s) \<le> 2"
      "X s = [[1, 0], [2, 0]]"
      "householderQR_diagonal Eigen_exact (window_matrix s) 1 = Finite 0"
    using dependent_window by blast
  have "Krylov_quotient Eigen_exact s 0 = Finite 0"
    using a(9) zero_second_entry_quotient [of Eigen_exact s 0] by simp
  then have "Krylov_criterion_fulfilled (Krylov_quotient Eigen_exact s 0) (Finite (- 1))"
    by (simp add: Krylov_criterion_fulfilled_def)
  then obtain s' where "checkBasis Eigen_exact (\<lambda>a i. 0) (Finite (- 1)) s = Inr (True, s')"
      "iBasis s' = iBasis s + 1"
    using checkBasis_accepts [OF a(3) a(6) a(5) a(7), of Eigen_exact "Finite (- 1)" "\<lambda>a i. 0"]
    by blast
  then show ?thesis using a by auto
qed

theorem degenerate_ratio_gives_no_growth_witness:
  "\<exists>s0 s s' s''. resize (\<lambda>a i. 0) 2 1 2 1 0 default_object = Inr s0 \<and>
      feed [[1, 0], [3, 0]] s0 = Inr s \<and> iBasis s = 0 \<and>
      householderQR_diagonal Eigen_exact (window_matrix s) 1 = Finite 0 \<and>
      checkBasis Eigen_exact (\<lambda>a i. 0) (Finite 50) s = Inr (False, s') \<and> iBasis s' = 0 \<and>
      Krylov_quotient (Eigen_exact\<lparr>householderQR_diagonal := \<lambda>m i. NaN\<rparr>) s 0 = NaN \<and>
      checkBasis (Eigen_exact\<lparr>householderQR_diagonal := \<lambda>m i. NaN\<rparr>) (\<lambda>a i. 0) (Finite 50) s
        = Inr (False, s'') \<and> iBasis s'' = 0"
proof -
  obtain s0 s where a: "resize (\<lambda>a i. 0) 2 1 2 1 0 default_object = Inr s0"
      "feed [[1, 0], [3, 0]] s0 = Inr s" "configured 2 s" "iBasis s = 0"
      "iBasis s < length (R s)" "iSample s + 1 = length (X s)" "length (X s) \<le> 2"
      "X s = [[1, 0], [2, 0]]"
      "householderQR_diagonal Eigen_exact (window_matrix s) 1 = Finite 0"
    using dependent_window by blast
  have n: "Krylov_quotient (Eigen_exact\<lparr>householderQR_diagonal := \<lambda>m i. NaN\<rparr>) s 0 = NaN"
    by (simp add: Krylov_quotient_def)
  obtain s' where s': "checkBasis Eigen_exact (\<lambda>a i. 0) (Finite 50) s = Inr (False, s')"
      "iBasis s' = iBasis s"
    using degenerate_ratio_gives_no_growth [OF a(3) a(6) a(5) a(7),
        of Eigen_exact "Finite 50" "\<lambda>a i. 0"] a(9)
    by auto
  obtain s'' where s'': "checkBasis (Eigen_exact\<lparr>householderQR_diagonal := \<lambda>m i. NaN\<rparr>)
        (\<lambda>a i. 0) (Finite 50) s = Inr (False, s'')" "iBasis s'' = iBasis s"
    using degenerate_ratio_gives_no_growth [OF a(3) a(6) a(5) a(7),
        of "Eigen_exact\<lparr>householderQR_diagonal := \<lambda>m i. NaN\<rparr>" "Finite 50" "\<lambda>a i. 0"] n
    by auto
  show ?thesis using a(1,2,4,9) n s' s'' by auto
qed

section \<open>The active basis count\<close>

text \<open>
  Claim C7.  Across any sequence of calls that stores iterates and calls \<^verbatim>\<open>compute\<close>,
  \<^verbatim>\<open>checkBasis\<close> and \<^verbatim>\<open>computeProjectedJacobian\<close> (no \<^verbatim>\<open>resize\<close>, no \<^verbatim>\<open>reset\<close>) and
  that runs to its end, the capacity \<open>R.size()\<close> does not change and the active basis count
  does not decrease, grows by at most one per \<^verbatim>\<open>checkBasis\<close> call and never exceeds the
  capacity.  A single \<^verbatim>\<open>checkBasis\<close> raises the count by at most one, and only when it
  returns true, the window is full (the test \<open>iSample + 1 < X.size()\<close> fails) and the count
  is below the capacity.
\<close>

theorem basis_count_is_monotone:
  assumes r: "run lib tape mem calls s = Inr s'" and b: "iBasis s \<le> size_basis s"
    and m: "size_basis s < 2 ^ 64"
  shows "size_basis s' = size_basis s \<and> iBasis s \<le> iBasis s' \<and> iBasis s' \<le> size_basis s' \<and>
     iBasis s' \<le> iBasis s + length (filter is_CheckBasis calls) \<and>
     (\<forall>t grew u. checkBasis lib mem t s = Inr (grew, u) \<longrightarrow>
        size_basis u = size_basis s \<and> iBasis s \<le> iBasis u \<and> iBasis u \<le> iBasis s + 1 \<and>
        iBasis u \<le> size_basis u \<and>
        (iBasis u \<noteq> iBasis s \<longrightarrow>
           grew \<and> \<not> Index_inc (iSample s) < length (X s) \<and> iBasis s < size_basis s))"
proof -
  have one: "size_basis u = size_basis s \<and> iBasis s \<le> iBasis u \<and> iBasis u \<le> iBasis s + 1 \<and>
        iBasis u \<le> size_basis u \<and>
        (iBasis u \<noteq> iBasis s \<longrightarrow>
           grew \<and> \<not> Index_inc (iSample s) < length (X s) \<and> iBasis s < size_basis s)"
    if g: "checkBasis lib mem t s = Inr (grew, u)" for t grew u
  proof (cases grew)
    case True
    then have l: "iBasis s < length (R s)" and i: "iBasis u = Index_inc (iBasis s)"
      and f: "\<not> Index_inc (iSample s) < length (X s)" and k: "length (R u) = length (R s)"
      using checkBasis_basis [OF g] by simp_all
    have "Index_inc (iBasis s) = iBasis s + 1"
      using l m by (intro Index_inc_eq) (simp add: size_basis_def)
    then show ?thesis using l i f k True by (simp add: size_basis_def)
  next
    case False
    then show ?thesis using checkBasis_basis [OF g] b by (simp add: size_basis_def)
  qed
  have two: "size_basis s' = size_basis s \<and> iBasis s \<le> iBasis s' \<and>
     iBasis s' \<le> size_basis s' \<and> iBasis s' \<le> iBasis s + length (filter is_CheckBasis calls)"
    using run_basis [OF r] b m by (simp add: size_basis_def)
  show ?thesis
    using one two by blast
qed

theorem basis_count_is_monotone_witness:
  "\<exists>s0 s'. resize (\<lambda>a i. 0) 2 1 2 1 0 default_object = Inr s0 \<and> iBasis s0 = 0 \<and>
      run Eigen_exact (\<lambda>adj. adj) (\<lambda>a i. 0)
        [Store [1, 0], Compute, Store [1, 1 / 100], Compute,
         CheckBasis (Finite 50), CheckBasis (Finite 50)] s0 = Inr s' \<and>
      iBasis s' = 1 \<and> size_basis s' = 1 \<and> iBasis s0 \<le> iBasis s' \<and>
      iBasis s' \<le> size_basis s' \<and> iBasis s' \<le> iBasis s0 + 2"
proof -
  let ?run = "run Eigen_exact (\<lambda>adj. adj) (\<lambda>a i. 0)"
  obtain s0 s where a: "resize (\<lambda>a i. 0) 2 1 2 1 0 default_object = Inr s0" "iBasis s0 = 0"
      "length (R s0) = 1" "feed [[1, 0], [1, 1 / 100]] s0 = Inr s" "configured 2 s"
      "iBasis s = 0" "length (R s) = 1" "iSample s + 1 = length (X s)"
      "length (X s) \<le> 2" "Krylov_quotient Eigen_exact s 0 = Finite 100"
    using independent_window by blast
  have l: "iBasis s < length (R s)" using a(6,7) by simp
  have y: "Krylov_criterion_fulfilled (Krylov_quotient Eigen_exact s 0) (Finite 50)"
    unfolding a(10) by (simp add: Krylov_criterion_fulfilled_def)
  obtain s1 where s1: "checkBasis Eigen_exact (\<lambda>a i. 0) (Finite 50) s = Inr (True, s1)"
      "iBasis s1 = iBasis s + 1" "configured 2 s1"
    using checkBasis_accepts [OF a(5) a(8) l a(9) y, of "\<lambda>a i. 0"] by blast
  have "length (R s1) = length (R s)" using checkBasis_basis [OF s1(1)] by simp
  then have "length (R s1) \<le> iBasis s1" using s1(2) a(6,7) by simp
  then have s2: "checkBasis Eigen_exact (\<lambda>a i. 0) (Finite 50) s1 = Inr (False, s1)"
    using checkBasis_basis_full [OF s1(3)] by simp
  have f: "?run [Store [1, 0], Compute, Store [1, 1 / 100], Compute] s0 = Inr s"
    using run_feed [of Eigen_exact "\<lambda>adj. adj" "\<lambda>a i. 0" "[[1, 0], [1, 1 / 100]]" s0] a(4)
    by simp
  have "?run ([Store [1, 0], Compute, Store [1, 1 / 100], Compute]
               @ [CheckBasis (Finite 50), CheckBasis (Finite 50)]) s0 = Inr s1"
    unfolding run_append f using s1(1) s2 by (simp add: perform_def)
  then have r: "?run [Store [1, 0], Compute, Store [1, 1 / 100], Compute,
                      CheckBasis (Finite 50), CheckBasis (Finite 50)] s0 = Inr s1"
    by simp
  have b: "iBasis s0 \<le> size_basis s0" and m: "size_basis s0 < 2 ^ 64"
    using a(2,3) by (simp_all add: size_basis_def)
  show ?thesis
    using basis_count_is_monotone [OF r b m] r a(1,2,3,6) s1(2) by (simp add: size_basis_def)
qed

section \<open>computeProjectedJacobian on a configured object\<close>

lemma well_formed_Eigen_resize:
  "well_formed m \<Longrightarrow> well_formed (Eigen_resize mem a m r c)"
  by (simp add: Eigen_resize_def well_formed_fresh_matrix)

lemma update_prefix:
  assumes "i < length c"
  shows "(map f [0..<i] @ drop i c)[i := f i] = map f [0..<Suc i] @ drop (Suc i) c"
proof -
  have "drop i c = c ! i # drop (Suc i) c"
    using assms by (simp add: Cons_nth_drop_Suc)
  then show ?thesis by (simp add: list_update_append)
qed

lemma projected_entries_prefix:
  assumes i: "i \<le> k" and e: "k \<le> ncols (EigenR t)" and r: "nrows (EigenR t) = nrows (DR t)"
    and n: "nrows (ProjectedJacobian t) = k" and j: "j < ncols (ProjectedJacobian t)"
    and l: "length (colvec (ProjectedJacobian t) ! j) = k"
  shows "for_each [0..<i] (projected_entry j) t =
     Inr (t\<lparr>ProjectedJacobian := (ProjectedJacobian t)
            \<lparr>colvec := (colvec (ProjectedJacobian t))
               [j := map (\<lambda>a. dot (colvec (EigenR t) ! a) (colvec (DR t) ! j)) [0..<i]
                     @ drop i (colvec (ProjectedJacobian t) ! j)]\<rparr>\<rparr>)"
  using i
proof (induction i)
  case 0
  show ?case by simp
next
  case (Suc i)
  let ?f = "\<lambda>a. dot (colvec (EigenR t) ! a) (colvec (DR t) ! j)"
  let ?c = "colvec (ProjectedJacobian t) ! j"
  let ?t = "t\<lparr>ProjectedJacobian := (ProjectedJacobian t)
            \<lparr>colvec := (colvec (ProjectedJacobian t))[j := map ?f [0..<i] @ drop i ?c]\<rparr>\<rparr>"
  have ih: "for_each [0..<i] (projected_entry j) t = Inr ?t" using Suc by simp
  have il: "i < length ?c" using Suc.prems l by simp
  have u: "(map ?f [0..<i] @ drop i ?c)[i := ?f i] = map ?f [0..<Suc i] @ drop (Suc i) ?c"
    using update_prefix [OF il] .
  have jl: "j < length (colvec (ProjectedJacobian t))" using j by (simp add: ncols_def)
  have "projected_entry j i ?t =
     Inr (t\<lparr>ProjectedJacobian := (ProjectedJacobian t)
            \<lparr>colvec := (colvec (ProjectedJacobian t))[j := map ?f [0..<Suc i] @ drop (Suc i) ?c]\<rparr>\<rparr>)"
    using Suc.prems e r n jl u
    by (simp add: projected_entry_def set_coeff_def ncols_def del: upt_Suc)
  then show ?case
    using ih by (simp add: for_each_append del: map_append)
qed


lemma prefix_nth:
  "j < length c \<Longrightarrow> (map f [0..<j] @ drop j c) ! j = c ! j"
  by (simp add: nth_append)

lemma jacobian_column_result:
  assumes j: "j < iBasis t" and rj: "j < length (R t)" and ln: "length (R t ! j) = n"
    and o: "n \<le> length OutputIndices" and ii: "n \<le> length InputIndices"
    and dc: "ncols (DR t) = iBasis t" and dr: "nrows (DR t) = n"
    and dl: "length (colvec (DR t) ! j) = n"
    and e: "iBasis t \<le> ncols (EigenR t)" and er: "nrows (EigenR t) = n"
    and pn: "nrows (ProjectedJacobian t) = iBasis t"
    and pc: "ncols (ProjectedJacobian t) = iBasis t"
    and pl: "length (colvec (ProjectedJacobian t) ! j) = iBasis t"
  shows "jacobian_column tape InputIndices OutputIndices j t =
     Inr (t\<lparr>DR := (DR t)\<lparr>colvec := (colvec (DR t))
                [j := adjoint_derivatives tape InputIndices OutputIndices (R t ! j)]\<rparr>,
            ProjectedJacobian := (ProjectedJacobian t)\<lparr>colvec := (colvec (ProjectedJacobian t))
                [j := map (\<lambda>a. dot (colvec (EigenR t) ! a)
                                 (adjoint_derivatives tape InputIndices OutputIndices (R t ! j)))
                          [0..<iBasis t]]\<rparr>\<rparr>)"
proof -
  let ?D = "adjoint_derivatives tape InputIndices OutputIndices (R t ! j)"
  let ?t1 = "t\<lparr>DR := (DR t)\<lparr>colvec := (colvec (DR t))[j := ?D]\<rparr>\<rparr>"
  have jd: "j < length (colvec (DR t))" using j dc by (simp add: ncols_def)
  have col: "map (\<lambda>it. tape (seed_adjoints OutputIndices (R t ! j)) (InputIndices ! it))
               [0..<length (R t ! j)] @ drop (length (R t ! j)) (colvec (DR t) ! j) = ?D"
    using ln dl by (simp add: adjoint_derivatives_def)
  have first: "jacobian_column tape InputIndices OutputIndices j t =
                 for_each [0..<iBasis t] (projected_entry j) ?t1"
    using j rj ln o ii dc dr col
    by (simp add: jacobian_column_def Let_def set_col_def)
  have "for_each [0..<iBasis t] (projected_entry j) ?t1 =
     Inr (?t1\<lparr>ProjectedJacobian := (ProjectedJacobian ?t1)
            \<lparr>colvec := (colvec (ProjectedJacobian ?t1))
               [j := map (\<lambda>a. dot (colvec (EigenR ?t1) ! a) (colvec (DR ?t1) ! j)) [0..<iBasis t]
                     @ drop (iBasis t) (colvec (ProjectedJacobian ?t1) ! j)]\<rparr>\<rparr>)"
    using j e er dr pn pc pl
    by (intro projected_entries_prefix) (simp_all add: ncols_def)
  then show ?thesis
    unfolding first using jd pl by simp
qed

lemma jacobian_columns_prefix:
  assumes kr: "iBasis s \<le> length (R s)" and ra: "list_all (\<lambda>r. length r = n) (R s)"
    and o: "n \<le> length OutputIndices" and ii: "n \<le> length InputIndices"
    and dc: "ncols (DR s) = iBasis s" and dr: "nrows (DR s) = n" and dw: "well_formed (DR s)"
    and e: "iBasis s \<le> ncols (EigenR s)" and er: "nrows (EigenR s) = n"
    and pn: "nrows (ProjectedJacobian s) = iBasis s"
    and pc: "ncols (ProjectedJacobian s) = iBasis s"
    and pw: "well_formed (ProjectedJacobian s)"
    and j: "j \<le> iBasis s"
  shows "for_each [0..<j] (jacobian_column tape InputIndices OutputIndices) s =
     Inr (s\<lparr>DR := (DR s)\<lparr>colvec :=
               map (\<lambda>a. adjoint_derivatives tape InputIndices OutputIndices (R s ! a)) [0..<j]
               @ drop j (colvec (DR s))\<rparr>,
            ProjectedJacobian := (ProjectedJacobian s)\<lparr>colvec :=
               map (\<lambda>a. map (\<lambda>b. dot (colvec (EigenR s) ! b)
                        (adjoint_derivatives tape InputIndices OutputIndices (R s ! a)))
                     [0..<iBasis s]) [0..<j]
               @ drop j (colvec (ProjectedJacobian s))\<rparr>\<rparr>)"
  using j
proof (induction j)
  case 0
  show ?case by simp
next
  case (Suc j)
  let ?D = "\<lambda>a. adjoint_derivatives tape InputIndices OutputIndices (R s ! a)"
  let ?J = "\<lambda>a. map (\<lambda>b. dot (colvec (EigenR s) ! b) (?D a)) [0..<iBasis s]"
  let ?t = "s\<lparr>DR := (DR s)\<lparr>colvec := map ?D [0..<j] @ drop j (colvec (DR s))\<rparr>,
              ProjectedJacobian := (ProjectedJacobian s)\<lparr>colvec :=
                 map ?J [0..<j] @ drop j (colvec (ProjectedJacobian s))\<rparr>\<rparr>"
  have ih: "for_each [0..<j] (jacobian_column tape InputIndices OutputIndices) s = Inr ?t"
    using Suc by simp
  have jk: "j < iBasis s" using Suc.prems by simp
  have jd: "j < length (colvec (DR s))" and jp: "j < length (colvec (ProjectedJacobian s))"
    using jk dc pc by (simp_all add: ncols_def)
  have dl: "length (colvec (DR s) ! j) = n"
    using dw dr jd list_all_nth [of "\<lambda>c. length c = nrows (DR s)" "colvec (DR s)" j]
    by (simp add: well_formed_def)
  have pl: "length (colvec (ProjectedJacobian s) ! j) = iBasis s"
    using pw pn jp
      list_all_nth [of "\<lambda>c. length c = nrows (ProjectedJacobian s)" "colvec (ProjectedJacobian s)" j]
    by (simp add: well_formed_def)
  have rl: "length (R s ! j) = n"
    using ra jk kr list_all_nth [of "\<lambda>r. length r = n" "R s" j] by simp
  have step: "jacobian_column tape InputIndices OutputIndices j ?t =
     Inr (?t\<lparr>DR := (DR ?t)\<lparr>colvec := (colvec (DR ?t))[j := ?D j]\<rparr>,
            ProjectedJacobian := (ProjectedJacobian ?t)\<lparr>colvec := (colvec (ProjectedJacobian ?t))
                [j := map (\<lambda>a. dot (colvec (EigenR ?t) ! a) (?D j)) [0..<iBasis ?t]]\<rparr>\<rparr>)"
    using jk kr rl o ii dc dr dl e er pn pc pl jd jp
      jacobian_column_result [where j = j and t = ?t and n = n and tape = tape
        and InputIndices = InputIndices and OutputIndices = OutputIndices]
    by (simp add: ncols_def prefix_nth del: upt_Suc)
  have u1: "(map ?D [0..<j] @ drop j (colvec (DR s)))[j := ?D j]
              = map ?D [0..<Suc j] @ drop (Suc j) (colvec (DR s))"
    using update_prefix [OF jd] .
  have u2: "(map ?J [0..<j] @ drop j (colvec (ProjectedJacobian s)))[j := ?J j]
              = map ?J [0..<Suc j] @ drop (Suc j) (colvec (ProjectedJacobian s))"
    using update_prefix [OF jp] .
  show ?case
    using ih step u1 u2 by (simp add: for_each_append del: map_append upt_Suc)
      (simp add: for_each_append)
qed

lemma matrix_colvec_update: "nrows m = k \<Longrightarrow> m\<lparr>colvec := x\<rparr> = \<lparr>nrows = k, colvec = x\<rparr>"
  by (cases m) simp

lemma is_square_I_minus_J:
  "is_square (iBasis s)
     (mat_sub (identity (iBasis s)) (projected_Jacobian tape InputIndices OutputIndices s))"
  by (simp add: is_square_def mat_sub_def identity_def projected_Jacobian_def ncols_def
      unit_vector_def list_all_length)

lemma computeProjectedJacobian_result:
  assumes c: "configured n s" and e: "basis_synced s"
    and w: "well_formed (ProjectedJacobian s)"
    and ii: "n \<le> length InputIndices" and o: "n \<le> length OutputIndices"
  shows "\<exists>s'. computeProjectedJacobian lib tape mem iZone InputIndices OutputIndices s = Inr s' \<and>
     ProjectedJacobian s' =
       mat_sub (identity (iBasis s)) (projected_Jacobian tape InputIndices OutputIndices s) \<and>
     NewtonInverseMatrix s' = apply_inverse lib
       (mat_sub (identity (iBasis s)) (projected_Jacobian tape InputIndices OutputIndices s)) \<and>
     iBasis s' = iBasis s \<and> R s' = R s \<and> EigenR s' = EigenR s \<and>
     configured n s' \<and> basis_synced s' \<and> well_formed (ProjectedJacobian s')"
proof -
  let ?k = "iBasis s"
  let ?Pz = "Eigen_resize mem 6 (ProjectedJacobian s) ?k ?k"
  let ?Nz = "Eigen_resize mem 7 (NewtonInverseMatrix s) ?k ?k"
  let ?Dz = "Eigen_resize mem 5 (DR s) (nrows (DR s)) ?k"
  let ?s1 = "s\<lparr>ProjectedJacobian := ?Pz, NewtonInverseMatrix := ?Nz, DR := ?Dz\<rparr>"
  let ?D = "\<lambda>a. adjoint_derivatives tape InputIndices OutputIndices (R s ! a)"
  let ?M = "mat_sub (identity ?k) (projected_Jacobian tape InputIndices OutputIndices s)"
  have kr: "?k \<le> length (R s)" and ra: "list_all (\<lambda>r. length r = n) (R s)"
    and dr: "nrows (DR s) = n" and dw: "well_formed (DR s)" and er: "nrows (EigenR s) = n"
    using c by (simp_all add: configured_def)
  have en: "?k \<le> ncols (EigenR s)"
    and et: "take ?k (colvec (EigenR s)) = take ?k (R s)"
    using e by (simp_all add: basis_synced_def)
  have ec: "colvec (EigenR s) ! b = R s ! b" if "b < ?k" for b
    using that nth_take [of b ?k "colvec (EigenR s)"] nth_take [of b ?k "R s"] et by simp
  have loop: "for_each [0..<?k] (jacobian_column tape InputIndices OutputIndices) ?s1 =
     Inr (?s1\<lparr>DR := (DR ?s1)\<lparr>colvec :=
               map (\<lambda>a. adjoint_derivatives tape InputIndices OutputIndices (R ?s1 ! a)) [0..<?k]
               @ drop ?k (colvec (DR ?s1))\<rparr>,
            ProjectedJacobian := (ProjectedJacobian ?s1)\<lparr>colvec :=
               map (\<lambda>a. map (\<lambda>b. dot (colvec (EigenR ?s1) ! b)
                        (adjoint_derivatives tape InputIndices OutputIndices (R ?s1 ! a)))
                     [0..<iBasis ?s1]) [0..<?k]
               @ drop ?k (colvec (ProjectedJacobian ?s1))\<rparr>\<rparr>)"
    using kr ra ii o dr er en
      Eigen_resize_dims [of mem 6 "ProjectedJacobian s" ?k ?k]
      Eigen_resize_dims [of mem 5 "DR s" "nrows (DR s)" ?k]
      well_formed_Eigen_resize [OF dw, of mem 5 "nrows (DR s)" ?k]
      well_formed_Eigen_resize [OF w, of mem 6 ?k ?k]
    by (intro jacobian_columns_prefix [where n = n]) simp_all
  have cols: "map (\<lambda>a. map (\<lambda>b. dot (colvec (EigenR s) ! b) (?D a)) [0..<?k]) [0..<?k]
            = colvec (projected_Jacobian tape InputIndices OutputIndices s)"
    using ec by (simp add: projected_Jacobian_def)
  have pj: "?Pz\<lparr>colvec := colvec (projected_Jacobian tape InputIndices OutputIndices s)\<rparr>
          = projected_Jacobian tape InputIndices OutputIndices s"
    using Eigen_resize_dims [of mem 6 "ProjectedJacobian s" ?k ?k]
      matrix_colvec_update [of ?Pz ?k]
    by (simp add: projected_Jacobian_def)
  have lp: "length (colvec ?Pz) = ?k" and ld: "length (colvec ?Dz) = ?k"
    and nn: "nrows ?Nz = ?k" and nd: "nrows ?Dz = n"
    using Eigen_resize_dims [of mem 6 "ProjectedJacobian s" ?k ?k]
      Eigen_resize_dims [of mem 5 "DR s" "nrows (DR s)" ?k]
      Eigen_resize_dims [of mem 7 "NewtonInverseMatrix s" ?k ?k] dr
    by (simp_all add: ncols_def)
  let ?s' = "s\<lparr>ProjectedJacobian := ?M, NewtonInverseMatrix := apply_inverse lib ?M,
               DR := ?Dz\<lparr>colvec := map ?D [0..<?k]\<rparr>\<rparr>"
  have r: "computeProjectedJacobian lib tape mem iZone InputIndices OutputIndices s = Inr ?s'"
    unfolding computeProjectedJacobian_def Let_def
    using loop cols pj lp ld nn by simp
  have "length (?D a) = n" if "a < ?k" for a
    using that kr list_all_nth [OF ra, of a] by (simp add: adjoint_derivatives_def)
  then have wd: "well_formed (?Dz\<lparr>colvec := map ?D [0..<?k]\<rparr>)"
    using nd by (simp add: well_formed_def list_all_iff)
  have wm: "well_formed ?M"
    using is_square_I_minus_J [of s tape InputIndices OutputIndices]
    by (simp add: is_square_def well_formed_def)
  have "configured n ?s'" using c wd nd by (simp add: configured_def)
  moreover have "basis_synced ?s'" using e by (simp add: basis_synced_def)
  ultimately show ?thesis using r wm by simp
qed


section \<open>The sample run\<close>

lemma upt_1: "[0..<1] = [0]"
  by simp

lemma upt_2: "[0..<2] = [0, 1]"
  by (simp add: upt_rec)

lemma Index_small:
  "Index_inc 0 = Suc 0" "Index_inc (Suc 0) = Suc (Suc 0)"
  "Index_dec (Suc 0) = 0" "Index_dec (Suc (Suc 0)) = Suc 0"
  by (simp_all add: Index_inc_def Index_dec_def)

lemmas sample_states =
  sample_configured_def sample_window_def sample_basis_def sample_Newton_def
  sample_corrected_def sample_window_halo_def sample_reset_def sample_restart_def
  sample_regrown_def

lemmas compute_eval =
  compute_def remove_projection_def store_delta_def recombine_def projectOntoSubspace_def
  updateProjectedSolution_def FPresult_def Index_small upt_1 upt_2
  shiftHistoryLeft_def shiftHistoryLeft_from.simps transpose_times_def times_def dot_def
  ncols_def Let_def store_FPresult_def

lemmas checkBasis_eval =
  checkBasis_def copy_window_def copy_window_column_def set_col_def
  Krylov_Criterion_Quotients_def Rdiag_def Krylov_criterion_fulfilled_def
  appendBasisVector_def subtract_projection_def copy_basis_column_def Eigen_resize_def
  fresh_matrix_def unit_vector_def Eigen_exact_def normalize_def
  makeHouseholder_def applyHouseholderOnTheLeft_def tol_def
  Index_small upt_1 upt_2 ncols_def dot_def Let_def

lemmas Jacobian_eval =
  computeProjectedJacobian_def jacobian_column_def projected_entry_def seed_adjoints_def
  set_coeff_def set_col_def Eigen_resize_def fresh_matrix_def identity_def unit_vector_def
  mat_sub_def apply_inverse_def Eigen_exact_def partialPiv_inverse_def rows_of_def
  eliminate_def pivot_row_def empty_matrix_def ncols_def dot_def Let_def tape_third_def
  upt_1 upt_2

lemma sample_resize: "resize (\<lambda>a i. 0) 2 1 2 1 1 default_object = Inr sample_configured"
  by (simp add: resize_def default_object_def fresh_def fresh_matrix_def zero_vector_def
      sample_configured_def Let_def upt_1 upt_2)

lemma sample_feed: "feed [[0, 1], [1 / 100, 1]] sample_configured = Inr sample_window"
  by (simp add: sample_states compute_eval)

lemma sample_checkBasis:
  "checkBasis Eigen_exact (\<lambda>a i. 0) (Finite 50) sample_window = Inr (True, sample_basis)"
  by (simp add: sample_states checkBasis_eval)

lemma sample_Jacobian:
  "computeProjectedJacobian Eigen_exact tape_third (\<lambda>a i. 0) 0 [0, 1] [0, 1] sample_basis
     = Inr sample_Newton"
  by (simp add: sample_states Jacobian_eval)

lemma sample_compute: "feed [[1 / 100, 5]] sample_Newton = Inr sample_corrected"
  by (simp add: sample_states compute_eval)

lemma sample_run_basis:
  "run Eigen_exact tape_third (\<lambda>a i. 0)
     [Store [0, 1], Compute, Store [1 / 100, 1], Compute, CheckBasis (Finite 50)]
     sample_configured = Inr sample_basis"
proof -
  have "run Eigen_exact tape_third (\<lambda>a i. 0)
          (concat (map (\<lambda>w. [Store w, Compute]) [[0, 1], [1 / 100, 1]])
           @ [CheckBasis (Finite 50)]) sample_configured = Inr sample_basis"
    unfolding run_append run_feed sample_feed
    by (simp add: perform_def sample_checkBasis del: feed.simps)
  then show ?thesis by simp
qed

lemma sample_run_corrected:
  "run Eigen_exact tape_third (\<lambda>a i. 0)
     [Store [0, 1], Compute, Store [1 / 100, 1], Compute, CheckBasis (Finite 50),
      ComputeProjectedJacobian [0, 1] [0, 1], Store [1 / 100, 5], Compute]
     sample_configured = Inr sample_corrected"
proof -
  have "run Eigen_exact tape_third (\<lambda>a i. 0)
          ([Store [0, 1], Compute, Store [1 / 100, 1], Compute, CheckBasis (Finite 50)]
           @ [ComputeProjectedJacobian [0, 1] [0, 1]]
           @ concat (map (\<lambda>w. [Store w, Compute]) [[1 / 100, 5]])) sample_configured
        = Inr sample_corrected"
    unfolding run_append run_feed sample_run_basis
    by (simp add: perform_def sample_Jacobian sample_compute del: feed.simps)
  then show ?thesis by simp
qed

lemma sample_reset_result: "reset sample_corrected = Inr sample_reset"
  by (simp add: sample_states reset_def)

lemma sample_restart_feed:
  "feed [[1 / 50, 0]] (sample_reset\<lparr>BasisSize_n := b\<rparr>) = Inr (sample_restart\<lparr>BasisSize_n := b\<rparr>)"
  by (simp add: sample_states compute_eval)

lemma sample_regrowth:
  "run Eigen_exact tape_third (\<lambda>a i. 0)
     [CheckBasis (Finite 50), ComputeProjectedJacobian [0, 1] [0, 1]]
     (sample_restart\<lparr>BasisSize_n := b\<rparr>) = Inr (sample_regrown\<lparr>BasisSize_n := b\<rparr>)"
  by (simp add: sample_states perform_def checkBasis_eval Jacobian_eval)

lemma sample_regrown_compute:
  "\<exists>t u. feed [[2, 5]] sample_regrown = Inr t \<and> work t = [2, 10] \<and>
     feed [[2, 5]] (sample_regrown\<lparr>BasisSize_n := 0\<rparr>) = Inr u \<and> work u = [2, 5]"
  by (simp add: sample_states compute_eval)

lemma sample_run_after_reset:
  "\<exists>t u. run Eigen_exact tape_third (\<lambda>a i. 0)
       [Store [1 / 50, 0], Compute, CheckBasis (Finite 50),
        ComputeProjectedJacobian [0, 1] [0, 1], Store [2, 5], Compute] sample_reset = Inr t \<and>
     work t = [2, 10] \<and>
     run Eigen_exact tape_third (\<lambda>a i. 0)
       [Store [1 / 50, 0], Compute, CheckBasis (Finite 50),
        ComputeProjectedJacobian [0, 1] [0, 1], Store [2, 5], Compute]
       (sample_reset\<lparr>BasisSize_n := 0\<rparr>) = Inr u \<and>
     work u = [2, 5]"
proof -
  have r: "run Eigen_exact tape_third (\<lambda>a i. 0)
       [Store [1 / 50, 0], Compute, CheckBasis (Finite 50),
        ComputeProjectedJacobian [0, 1] [0, 1], Store [2, 5], Compute]
       (sample_reset\<lparr>BasisSize_n := b\<rparr>)
     = feed [[2, 5]] (sample_regrown\<lparr>BasisSize_n := b\<rparr>)" for b
  proof -
    have "run Eigen_exact tape_third (\<lambda>a i. 0)
          (concat (map (\<lambda>w. [Store w, Compute]) [[1 / 50, 0]])
           @ [CheckBasis (Finite 50), ComputeProjectedJacobian [0, 1] [0, 1]]
           @ concat (map (\<lambda>w. [Store w, Compute]) [[2, 5]]))
          (sample_reset\<lparr>BasisSize_n := b\<rparr>)
        = feed [[2, 5]] (sample_regrown\<lparr>BasisSize_n := b\<rparr>)"
      unfolding run_append run_feed sample_restart_feed
      by (simp add: sample_regrowth del: feed.simps run.simps)
    then show ?thesis by simp
  qed
  have "sample_reset\<lparr>BasisSize_n := 1\<rparr> = sample_reset"
    "sample_regrown\<lparr>BasisSize_n := 1\<rparr> = sample_regrown"
    by (simp_all add: sample_states)
  then show ?thesis
    using r [of 1] r [of 0] sample_regrown_compute by (simp del: feed.simps run.simps)
qed

lemma sample_feed_halo: "feed [[0, 2], [1 / 100, 2]] sample_configured = Inr sample_window_halo"
  by (simp add: sample_states compute_eval)

lemma sample_quotients:
  "Krylov_quotient Eigen_exact sample_window 0 = Finite 100 \<and>
   Krylov_quotient Eigen_exact sample_window_halo 0 = Finite 200"
  by (simp add: Krylov_quotient_def window_matrix_def Eigen_exact_def sample_states
      householder_eval)

lemma sample_decisions:
  "checkBasis Eigen_exact (\<lambda>a i. 0) (Finite 150) sample_window
     = Inr (False, sample_window\<lparr>EigenX := \<lparr>nrows = 2, colvec = [[0, 1], [1 / 100, 0]]\<rparr>\<rparr>) \<and>
   (\<exists>s'. checkBasis Eigen_exact (\<lambda>a i. 0) (Finite 150) sample_window_halo = Inr (True, s'))"
  by (simp add: sample_states checkBasis_eval)

lemma square_1:
  assumes "is_square 1 a"
  shows "\<exists>x. a = \<lparr>nrows = 1, colvec = [[x]]\<rparr>"
proof -
  obtain r c where a: "a = \<lparr>nrows = r, colvec = c\<rparr>" by (cases a) simp
  have r: "r = 1" and l: "length c = 1" and e: "list_all (\<lambda>v. length v = 1) c"
    using assms a by (simp_all add: is_square_def ncols_def)
  obtain v where c: "c = [v]" using l by (cases c) simp_all
  then have "length v = 1" using e by simp
  then obtain x where "v = [x]" by (cases v) simp_all
  then show ?thesis using a r c by simp
qed

lemma Eigen_exact_inverse_1:
  "x \<noteq> 0 \<Longrightarrow>
     apply_inverse Eigen_exact \<lparr>nrows = Suc 0, colvec = [[x]]\<rparr>
       = \<lparr>nrows = Suc 0, colvec = [[1 / x]]\<rparr>"
  by (simp add: apply_inverse_def Eigen_exact_def partialPiv_inverse_def rows_of_def
      eliminate_def pivot_row_def unit_vector_def ncols_def Let_def upt_1)

lemma mat_mul_1:
  "mat_mul \<lparr>nrows = Suc 0, colvec = [[y]]\<rparr> \<lparr>nrows = Suc 0, colvec = [[x]]\<rparr>
     = \<lparr>nrows = Suc 0, colvec = [[y * x]]\<rparr>"
  by (simp add: mat_mul_def times_def upt_1)

lemma identity_1: "identity (Suc 0) = \<lparr>nrows = Suc 0, colvec = [[1]]\<rparr>"
  by (simp add: identity_def unit_vector_def upt_1)

lemma Eigen_exact_inverse_contract_1: "inverse_contract Eigen_exact 1"
  unfolding inverse_contract_def
proof (intro allI impI)
  fix a
  assume h: "is_square 1 a \<and> (\<exists>b. is_square 1 b \<and> mat_mul b a = identity 1)"
  then obtain x where a: "a = \<lparr>nrows = 1, colvec = [[x]]\<rparr>" using square_1 by blast
  from h obtain b where b: "is_square 1 b" "mat_mul b a = identity 1" by blast
  then obtain y where "b = \<lparr>nrows = 1, colvec = [[y]]\<rparr>" using square_1 by blast
  then have "y * x = 1" using b(2) a by (simp add: mat_mul_1 identity_1)
  then have x: "x \<noteq> 0" by auto
  show "mat_mul (apply_inverse Eigen_exact a) a = identity 1"
    using x unfolding a by (simp add: Eigen_exact_inverse_1 mat_mul_1 identity_1)
qed

lemma sample_basis_configured: "configured 2 sample_basis \<and> basis_synced sample_basis \<and>
    well_formed (ProjectedJacobian sample_basis)"
  by (simp add: sample_states configured_def basis_synced_def well_formed_def ncols_def
      empty_matrix_def)

lemma sample_projected_Jacobian:
  "projected_Jacobian tape_third [0, 1] [0, 1] sample_basis = \<lparr>nrows = 1, colvec = [[1 / 3]]\<rparr>"
  by (simp add: projected_Jacobian_def adjoint_derivatives_def seed_adjoints_def
      tape_third_def sample_states dot_def upt_1 upt_2)

lemma sample_I_minus_J:
  "mat_sub (identity (iBasis sample_basis))
     (projected_Jacobian tape_third [0, 1] [0, 1] sample_basis)
   = \<lparr>nrows = 1, colvec = [[2 / 3]]\<rparr>"
  unfolding sample_projected_Jacobian
  by (simp add: sample_states mat_sub_def identity_1)


section \<open>The Newton operator\<close>

text \<open>
  Claim C4, amended.  On a configured object whose basis copy \<open>EigenR\<close> holds the active
  basis vectors, with index arrays that cover the solution, \<^verbatim>\<open>computeProjectedJacobian\<close>
  returns; with \<open>J\<close> the projected Jacobian assembled from the basis and the derivatives of
  the differentiation tool (\<open>J[i,j] = R[i]\<^sup>T \<cdot> DR[:,j]\<close>) and \<open>N\<close> the stored
  \<open>NewtonInverseMatrix\<close>, \<open>N \<cdot> (I - J)\<close> is the identity of size \<open>iBasis\<close>, provided
  \<open>I - J\<close> is invertible and the library's inversion returns an inverse of such matrices.
  The matrix stored under the name \<open>ProjectedJacobian\<close> after the call is \<open>I - J\<close> itself, not
  \<open>J\<close>: it is \<open>N \<cdot> ProjectedJacobian\<close> that is the identity.
\<close>

theorem Newton_operator_inverts_I_minus_J:
  assumes c: "configured n s" and e: "basis_synced s"
    and w: "well_formed (ProjectedJacobian s)"
    and ii: "n \<le> length InputIndices" and o: "n \<le> length OutputIndices"
    and lib: "inverse_contract lib (iBasis s)"
    and inv: "\<exists>b. is_square (iBasis s) b \<and>
        mat_mul b (mat_sub (identity (iBasis s))
                     (projected_Jacobian tape InputIndices OutputIndices s)) = identity (iBasis s)"
  shows "\<exists>s'. computeProjectedJacobian lib tape mem iZone InputIndices OutputIndices s = Inr s' \<and>
     mat_mul (NewtonInverseMatrix s')
       (mat_sub (identity (iBasis s)) (projected_Jacobian tape InputIndices OutputIndices s))
       = identity (iBasis s) \<and>
     ProjectedJacobian s' =
       mat_sub (identity (iBasis s)) (projected_Jacobian tape InputIndices OutputIndices s) \<and>
     mat_mul (NewtonInverseMatrix s') (ProjectedJacobian s') = identity (iBasis s)"
proof -
  let ?M = "mat_sub (identity (iBasis s)) (projected_Jacobian tape InputIndices OutputIndices s)"
  obtain s' where s': "computeProjectedJacobian lib tape mem iZone InputIndices OutputIndices s
      = Inr s'" "ProjectedJacobian s' = ?M" "NewtonInverseMatrix s' = apply_inverse lib ?M"
    using computeProjectedJacobian_result [OF c e w ii o] by blast
  have "mat_mul (apply_inverse lib ?M) ?M = identity (iBasis s)"
    using lib inv is_square_I_minus_J [of s tape InputIndices OutputIndices]
    unfolding inverse_contract_def by blast
  then show ?thesis using s' by simp
qed

theorem Newton_operator_inverts_I_minus_J_witness:
  "run Eigen_exact tape_third (\<lambda>a i. 0)
     [Store [0, 1], Compute, Store [1 / 100, 1], Compute, CheckBasis (Finite 50)]
     sample_configured = Inr sample_basis \<and>
   (\<exists>s'. computeProjectedJacobian Eigen_exact tape_third (\<lambda>a i. 0) 0 [0, 1] [0, 1] sample_basis
            = Inr s' \<and>
      mat_mul (NewtonInverseMatrix s') \<lparr>nrows = 1, colvec = [[2 / 3]]\<rparr> = identity 1 \<and>
      ProjectedJacobian s' = \<lparr>nrows = 1, colvec = [[2 / 3]]\<rparr> \<and>
      mat_mul (NewtonInverseMatrix s') (ProjectedJacobian s') = identity 1)"
proof -
  have k: "iBasis sample_basis = 1" by (simp add: sample_states)
  have c: "configured 2 sample_basis" and e: "basis_synced sample_basis"
    and w: "well_formed (ProjectedJacobian sample_basis)"
    using sample_basis_configured by simp_all
  have lib: "inverse_contract Eigen_exact (iBasis sample_basis)"
    unfolding k by (rule Eigen_exact_inverse_contract_1)
  have "is_square 1 \<lparr>nrows = 1, colvec = [[3 / 2]]\<rparr> \<and>
        mat_mul \<lparr>nrows = 1, colvec = [[3 / 2]]\<rparr> \<lparr>nrows = 1, colvec = [[2 / 3]]\<rparr> = identity 1"
    by (simp add: is_square_def ncols_def mat_mul_1 identity_1)
  then have inv: "\<exists>b. is_square (iBasis sample_basis) b \<and>
        mat_mul b (mat_sub (identity (iBasis sample_basis))
                     (projected_Jacobian tape_third [0, 1] [0, 1] sample_basis))
          = identity (iBasis sample_basis)"
    unfolding sample_I_minus_J unfolding k by blast
  note t = Newton_operator_inverts_I_minus_J
        [OF c e w _ _ lib inv, where mem = "\<lambda>a i. 0" and iZone = 0]
  show ?thesis
    using t [unfolded sample_I_minus_J] sample_run_basis k by (simp del: run.simps)
qed

text \<open>
  Claim C4, as stated, fails in its last part: after the call the stored \<open>ProjectedJacobian\<close>
  is \<open>I - J\<close>, so \<open>N \<cdot> (I - ProjectedJacobian) = N \<cdot> J\<close>.  In the sample run \<open>J = 1/3\<close>,
  the stored matrix is \<open>2/3\<close>, \<open>N = 3/2\<close> and \<open>N \<cdot> (I - ProjectedJacobian) = 1/2\<close>.
\<close>

theorem stored_ProjectedJacobian_is_I_minus_J:
  "\<exists>s s'. resize (\<lambda>a i. 0) 2 1 2 1 1 default_object = Inr sample_configured \<and>
      run Eigen_exact tape_third (\<lambda>a i. 0)
        [Store [0, 1], Compute, Store [1 / 100, 1], Compute, CheckBasis (Finite 50)]
        sample_configured = Inr s \<and>
      computeProjectedJacobian Eigen_exact tape_third (\<lambda>a i. 0) 0 [0, 1] [0, 1] s = Inr s' \<and>
      projected_Jacobian tape_third [0, 1] [0, 1] s = \<lparr>nrows = 1, colvec = [[1 / 3]]\<rparr> \<and>
      ProjectedJacobian s' = \<lparr>nrows = 1, colvec = [[2 / 3]]\<rparr> \<and>
      NewtonInverseMatrix s' = \<lparr>nrows = 1, colvec = [[3 / 2]]\<rparr> \<and>
      mat_mul (NewtonInverseMatrix s') (mat_sub (identity 1) (ProjectedJacobian s'))
        = \<lparr>nrows = 1, colvec = [[1 / 2]]\<rparr> \<and>
      mat_mul (NewtonInverseMatrix s') (mat_sub (identity 1) (ProjectedJacobian s'))
        \<noteq> identity 1"
proof -
  have "mat_mul (NewtonInverseMatrix sample_Newton)
          (mat_sub (identity 1) (ProjectedJacobian sample_Newton))
        = \<lparr>nrows = 1, colvec = [[1 / 2]]\<rparr>"
    by (simp add: sample_states mat_sub_def identity_1 mat_mul_1)
  moreover have "\<lparr>nrows = 1, colvec = [[1 / 2]]\<rparr> \<noteq> identity 1"
    by (simp add: identity_1)
  moreover have "ProjectedJacobian sample_Newton = \<lparr>nrows = 1, colvec = [[2 / 3]]\<rparr>"
    "NewtonInverseMatrix sample_Newton = \<lparr>nrows = 1, colvec = [[3 / 2]]\<rparr>"
    by (simp_all add: sample_states)
  ultimately show ?thesis
    using sample_resize sample_run_basis sample_Jacobian sample_projected_Jacobian by auto
qed

section \<open>reset\<close>

text \<open>
  Claim C3, at a state the sample run reaches.  After \<^verbatim>\<open>reset\<close> the sample counter and the
  active basis count are zero and slot 0 of the window holds the last sample written, but the
  member \<open>BasisSize_n\<close>, which records the basis size at the last Newton update, keeps its
  value 1, and the basis copy \<open>EigenR\<close> keeps its column.  The value that is kept shows in
  what follows: once the basis has grown again, to the vector (0, 1), the iterate (2, 5) comes
  back from \<^verbatim>\<open>compute\<close> as (2, 10), whereas from the same state with \<open>BasisSize_n\<close> zero it
  comes back as (2, 5), unchanged, as the first iterate after a growth does before the
  \<^verbatim>\<open>reset\<close>.
\<close>

theorem reset_keeps_BasisSize_n:
  "\<exists>s0 s s' t u. resize (\<lambda>a i. 0) 2 1 2 1 1 default_object = Inr s0 \<and>
      run Eigen_exact tape_third (\<lambda>a i. 0)
        [Store [0, 1], Compute, Store [1 / 100, 1], Compute, CheckBasis (Finite 50),
         ComputeProjectedJacobian [0, 1] [0, 1], Store [1 / 100, 5], Compute] s0 = Inr s \<and>
      work s = [1 / 100, 5] \<and> iBasis s = 1 \<and> BasisSize_n s = 1 \<and>
      reset s = Inr s' \<and> iSample s' = 0 \<and> iBasis s' = 0 \<and> X s' ! 0 = X s ! iSample s \<and>
      BasisSize_n s' = 1 \<and> ncols (EigenR s') = 1 \<and>
      run Eigen_exact tape_third (\<lambda>a i. 0)
        [Store [1 / 50, 0], Compute, CheckBasis (Finite 50),
         ComputeProjectedJacobian [0, 1] [0, 1], Store [2, 5], Compute] s' = Inr t \<and>
      work t = [2, 10] \<and>
      run Eigen_exact tape_third (\<lambda>a i. 0)
        [Store [1 / 50, 0], Compute, CheckBasis (Finite 50),
         ComputeProjectedJacobian [0, 1] [0, 1], Store [2, 5], Compute]
        (s'\<lparr>BasisSize_n := 0\<rparr>) = Inr u \<and>
      work u = [2, 5]"
proof -
  have "work sample_corrected = [1 / 100, 5]" "iBasis sample_corrected = 1"
    "BasisSize_n sample_corrected = 1" "iSample sample_reset = 0" "iBasis sample_reset = 0"
    "X sample_reset ! 0 = X sample_corrected ! iSample sample_corrected"
    "BasisSize_n sample_reset = 1" "ncols (EigenR sample_reset) = 1"
    by (simp_all add: sample_states ncols_def)
  then show ?thesis
    using sample_resize sample_run_corrected sample_reset_result sample_run_after_reset
    by blast
qed


section \<open>Distributed solutions\<close>

text \<open>
  Claim C5, at states the sample run reaches, with one owned point and one halo point
  (\<open>nPtDomain = 1\<close>, \<open>npt = 2\<close>).  The inner products run over the whole buffers, halo
  included.  Two histories that differ in the halo entries only give the Krylov quotients 100
  and 200, and with threshold 150 the first is rejected and the second accepted.  Two
  iterates that differ in the halo entry only give the projection coefficients -5 and -7.
\<close>

theorem decisions_depend_on_halo_entries:
  "\<exists>s0 a b s t u. resize (\<lambda>a i. 0) 2 1 2 1 1 default_object = Inr s0 \<and> nPtDomain s0 = 1 \<and>
      feed [[0, 1], [1 / 100, 1]] s0 = Inr a \<and> feed [[0, 2], [1 / 100, 2]] s0 = Inr b \<and>
      Krylov_quotient Eigen_exact a 0 = Finite 100 \<and>
      Krylov_quotient Eigen_exact b 0 = Finite 200 \<and>
      (\<exists>a'. checkBasis Eigen_exact (\<lambda>a i. 0) (Finite 150) a = Inr (False, a')) \<and>
      (\<exists>b'. checkBasis Eigen_exact (\<lambda>a i. 0) (Finite 150) b = Inr (True, b')) \<and>
      checkBasis Eigen_exact (\<lambda>a i. 0) (Finite 50) a = Inr (True, s) \<and>
      nPtDomain s = 1 \<and> length (work s) = 2 \<and> R s = [[0, - 1]] \<and>
      projectOntoSubspace (s\<lparr>work := [2, 5]\<rparr>) = Inr t \<and>
      projectOntoSubspace (s\<lparr>work := [2, 7]\<rparr>) = Inr u \<and>
      p_R t = [- 5] \<and> p_R u = [- 7] \<and> p t = [0, 5] \<and> p u = [0, 7]"
proof -
  have "\<exists>t u. projectOntoSubspace (sample_basis\<lparr>work := [2, 5]\<rparr>) = Inr t \<and>
      projectOntoSubspace (sample_basis\<lparr>work := [2, 7]\<rparr>) = Inr u \<and>
      p_R t = [- 5] \<and> p_R u = [- 7] \<and> p t = [0, 5] \<and> p u = [0, 7]"
    by (simp add: sample_states projectOntoSubspace_def transpose_times_def times_def dot_def
        Let_def upt_2)
  moreover have "nPtDomain sample_configured = 1" "nPtDomain sample_basis = 1"
    "length (work sample_basis) = 2" "R sample_basis = [[0, - 1]]"
    by (simp_all add: sample_states)
  ultimately show ?thesis
    using sample_resize sample_feed sample_feed_halo sample_quotients sample_decisions
      sample_checkBasis
    by blast
qed

end
